(* ===== verification/Prelude.thy ===== *)
theory Prelude
  imports Main "HOL-Library.Word" "HOL-Library.Signed_Division" "HOL-Library.Sublist"
begin

text \<open>
  What every component shares: Go's \<open>int64\<close> arithmetic (wrapping addition, truncating
  division), \<open>time.Duration\<close> and \<open>time.Time\<close>, and a few list facts.

  Two readings of an \<open>int64\<close> are used. Counters and identifiers, which the code only
  increments and compares, are \<open>64 word\<close>, so that \<open>+\<close> wraps as it does in Go.
  Durations and other numbers the code does arithmetic on are \<open>int\<close>, with \<open>wrap64\<close>
  written at every operation that can leave the range.

  A \<open>time.Time\<close> is the number of nanoseconds since Go's zero time (January 1, year 1, UTC), so
  \<open>t.IsZero()\<close> is \<open>t = 0\<close>; \<open>Before\<close>, \<open>After\<close> and \<open>Equal\<close> compare
  instants. Every call of \<open>time.Now\<close> is an argument of the definition that makes it.
\<close>

section \<open>Collections of facts\<close>

named_theorems go_arith \<open>definitions of Go's integer, duration and time operations\<close>
named_theorems go_keeps \<open>invariants kept by the operations of a component\<close>

section \<open>int64\<close>

type_synonym int64 = "64 word"

definition min_int64 :: int where "min_int64 = - 9223372036854775808"
definition max_int64 :: int where "max_int64 = 9223372036854775807"

definition in_int64 :: "int \<Rightarrow> bool" where
  "in_int64 x \<longleftrightarrow> min_int64 \<le> x \<and> x \<le> max_int64"

text \<open>The value Go stores when the exact result of an \<open>int64\<close> operation is \<open>x\<close>.\<close>

definition wrap64 :: "int \<Rightarrow> int" where
  "wrap64 x = (x + 9223372036854775808) mod 18446744073709551616 - 9223372036854775808"

declare min_int64_def [go_arith] max_int64_def [go_arith] in_int64_def [go_arith]

lemma wrap64_in_int64 [simp]: "in_int64 (wrap64 x)"
proof -
  have "0 \<le> (x + 9223372036854775808) mod 18446744073709551616"
    and "(x + 9223372036854775808) mod 18446744073709551616 < 18446744073709551616"
    by simp_all
  then show ?thesis by (simp add: wrap64_def go_arith)
qed

lemma wrap64_id [simp]: "in_int64 x \<Longrightarrow> wrap64 x = x"
  by (simp add: wrap64_def go_arith)

lemma wrap64_between: "min_int64 \<le> x \<Longrightarrow> x \<le> max_int64 \<Longrightarrow> wrap64 x = x"
  by (simp add: in_int64_def)

section \<open>Durations and times\<close>

type_synonym duration = int
type_synonym gtime = int

definition nanosecond :: duration where "nanosecond = 1"
definition millisecond :: duration where "millisecond = 1000000"
definition second :: duration where "second = 1000000000"
definition minute :: duration where "minute = 60000000000"
definition hour :: duration where "hour = 3600000000000"

declare nanosecond_def [go_arith] millisecond_def [go_arith] second_def [go_arith]
  minute_def [go_arith] hour_def [go_arith]

text \<open>\<open>Duration.Milliseconds\<close> truncates towards zero.\<close>

definition milliseconds :: "duration \<Rightarrow> int" where
  "milliseconds d = d sdiv millisecond"

text \<open>\<open>t.Sub(u)\<close> saturates at the ends of the \<open>int64\<close> range; \<open>t.Add(d)\<close> is exact.\<close>

definition time_sub :: "gtime \<Rightarrow> gtime \<Rightarrow> duration" where
  "time_sub t u = max min_int64 (min max_int64 (t - u))"

definition time_add :: "gtime \<Rightarrow> duration \<Rightarrow> gtime" where
  "time_add t d = t + d"

text \<open>
  \<open>time.Unix(sec, 0)\<close> stores the wrapped sum of the seconds and Go's offset between year 1 and
  1970; \<open>t.Unix()\<close> is the number of whole seconds since 1970.
\<close>

definition unix_to_internal :: int where "unix_to_internal = 62135596800"

definition time_unix :: "int \<Rightarrow> gtime" where
  "time_unix s = wrap64 (s + unix_to_internal) * second"

definition unix_of :: "gtime \<Rightarrow> int" where
  "unix_of t = t div second - unix_to_internal"

declare unix_to_internal_def [go_arith]

lemma time_sub_range [simp]: "in_int64 (time_sub t u)"
  by (simp add: time_sub_def go_arith)

lemma time_sub_exact: "in_int64 (t - u) \<Longrightarrow> time_sub t u = t - u"
  by (simp add: time_sub_def in_int64_def)

lemma time_sub_pos_iff: "0 < time_sub t u \<longleftrightarrow> u < t"
  by (auto simp: time_sub_def go_arith)

lemma unix_of_time_unix:
  assumes "in_int64 (s + unix_to_internal)"
  shows "unix_of (time_unix s) = s"
  using assms by (simp add: unix_of_def time_unix_def second_def)

section \<open>Lists\<close>

text \<open>The last \<open>n\<close> elements of a list, in order.\<close>

definition last_n :: "nat \<Rightarrow> 'a list \<Rightarrow> 'a list" where
  "last_n n xs = drop (length xs - n) xs"

lemma length_last_n [simp]: "length (last_n n xs) = min n (length xs)"
  by (simp add: last_n_def)

lemma last_n_Nil [simp]: "last_n n [] = []"
  by (simp add: last_n_def)

lemma last_n_all: "length xs \<le> n \<Longrightarrow> last_n n xs = xs"
  by (simp add: last_n_def)

lemma last_n_map: "last_n n (map f xs) = map f (last_n n xs)"
  by (simp add: last_n_def drop_map)

text \<open>Appending to a window that is full drops its first element.\<close>

lemma last_n_snoc:
  assumes "0 < n"
  shows "last_n n (xs @ [x]) =
    (if length (last_n n xs) \<ge> n then tl (last_n n xs) @ [x] else last_n n xs @ [x])"
proof (cases "n \<le> length xs")
  case True
  then have "Suc (length xs) - n = Suc (length xs - n)" by simp
  moreover have "Suc 0 - n = 0" using assms by simp
  ultimately show ?thesis using True by (simp add: last_n_def tl_drop drop_Suc)
next
  case False
  then show ?thesis using assms by (simp add: last_n_def)
qed

lemma set_last_n: "set (last_n n xs) \<subseteq> set xs"
  by (simp add: last_n_def set_drop_subset)

lemma last_n_suffix: "suffix (last_n n xs) xs"
  by (simp add: last_n_def suffix_drop)

end
