(* ===== verification/GoText.thy ===== *)
theory GoText
  imports Prelude
begin

text \<open>
  Go strings, and the functions of \<open>strings\<close>, \<open>strconv\<close> and \<open>fmt\<close> the bridge calls.
  A Go string is a sequence of bytes: HOL's \<open>string\<close>, whose characters are the bytes. A rune is
  a code point, a \<open>nat\<close>. \<open>segs\<close> is Go's \<open>for range\<close> over a string: the runes together
  with the bytes each was decoded from, a malformed byte being \<open>rune_error\<close> of width 1.

  Lemmas: decoding consumes the string exactly, encoding and decoding are inverse on valid runes,
  a printed number parses back, trimming keeps a contiguous part.
\<close>

section \<open>UTF-8\<close>

abbreviation byte :: "char \<Rightarrow> nat" where "byte c \<equiv> of_char c"

definition rune_error :: nat where "rune_error = 0xFFFD"

definition in_range :: "nat \<Rightarrow> nat \<Rightarrow> char \<Rightarrow> bool" where
  "in_range lo hi c \<longleftrightarrow> lo \<le> byte c \<and> byte c \<le> hi"

text \<open>\<open>utf8.DecodeRuneInString\<close>: the rune and its width in bytes.\<close>

definition decode2 :: "nat \<Rightarrow> string \<Rightarrow> nat \<times> nat" where
  "decode2 b0 r = (case r of
     c1 # _ \<Rightarrow> if in_range 0x80 0xBF c1 then ((b0 - 0xC0) * 64 + (byte c1 - 0x80), 2)
               else (rune_error, 1)
   | [] \<Rightarrow> (rune_error, 1))"

definition decode3 :: "nat \<Rightarrow> nat \<Rightarrow> nat \<Rightarrow> string \<Rightarrow> nat \<times> nat" where
  "decode3 lo hi b0 r = (case r of
     c1 # c2 # _ \<Rightarrow> if in_range lo hi c1 \<and> in_range 0x80 0xBF c2
       then ((b0 - 0xE0) * 4096 + (byte c1 - 0x80) * 64 + (byte c2 - 0x80), 3)
       else (rune_error, 1)
   | _ \<Rightarrow> (rune_error, 1))"

definition decode4 :: "nat \<Rightarrow> nat \<Rightarrow> nat \<Rightarrow> string \<Rightarrow> nat \<times> nat" where
  "decode4 lo hi b0 r = (case r of
     c1 # c2 # c3 # _ \<Rightarrow> if in_range lo hi c1 \<and> in_range 0x80 0xBF c2 \<and> in_range 0x80 0xBF c3
       then ((b0 - 0xF0) * 262144 + (byte c1 - 0x80) * 4096 + (byte c2 - 0x80) * 64
             + (byte c3 - 0x80), 4)
       else (rune_error, 1)
   | _ \<Rightarrow> (rune_error, 1))"

definition decode_rune :: "string \<Rightarrow> nat \<times> nat" where
  "decode_rune s = (case s of
     [] \<Rightarrow> (rune_error, 0)
   | c0 # r \<Rightarrow> (let b0 = byte c0 in
       if b0 < 0x80 then (b0, 1)
       else if b0 < 0xC2 then (rune_error, 1)
       else if b0 \<le> 0xDF then decode2 b0 r
       else if b0 = 0xE0 then decode3 0xA0 0xBF b0 r
       else if b0 = 0xED then decode3 0x80 0x9F b0 r
       else if b0 \<le> 0xEF then decode3 0x80 0xBF b0 r
       else if b0 = 0xF0 then decode4 0x90 0xBF b0 r
       else if b0 \<le> 0xF3 then decode4 0x80 0xBF b0 r
       else if b0 = 0xF4 then decode4 0x80 0x8F b0 r
       else (rune_error, 1)))"

lemmas decode_defs = decode_rune_def decode2_def decode3_def decode4_def Let_def

lemma decode_width:
  assumes "s \<noteq> []"
  shows "1 \<le> snd (decode_rune s) \<and> snd (decode_rune s) \<le> length s"
  using assms by (auto simp: decode_defs split: list.split)

lemma decode_width_Cons: "(r, n) = decode_rune (c # cs) \<Longrightarrow> 1 \<le> n"
  using decode_width [of "c # cs"] by (metis list.distinct(1) snd_conv)

function segs :: "string \<Rightarrow> (nat \<times> string) list" where
  "segs [] = []"
| "segs (c # cs) = (case decode_rune (c # cs) of
     (r, n) \<Rightarrow> (r, take n (c # cs)) # segs (drop n (c # cs)))"
  by pat_completeness auto
termination
  by (relation "measure length") (auto dest!: decode_width_Cons)

text \<open>\<open>[]rune(s)\<close>.\<close>

definition runes :: "string \<Rightarrow> nat list" where
  "runes s = map fst (segs s)"

definition valid_rune :: "nat \<Rightarrow> bool" where
  "valid_rune r \<longleftrightarrow> r < 0x110000 \<and> \<not> (0xD800 \<le> r \<and> r \<le> 0xDFFF)"

text \<open>\<open>utf8.AppendRune\<close>; a rune that is not valid is written as \<open>rune_error\<close>.\<close>

definition encode_rune :: "nat \<Rightarrow> string" where
  "encode_rune r =
     (if r < 0x80 then [char_of r]
      else if r < 0x800 then [char_of (0xC0 + r div 64), char_of (0x80 + r mod 64)]
      else if \<not> valid_rune r then [char_of (0xEF::nat), char_of (0xBF::nat), char_of (0xBD::nat)]
      else if r < 0x10000 then [char_of (0xE0 + r div 4096), char_of (0x80 + r div 64 mod 64),
                                char_of (0x80 + r mod 64)]
      else [char_of (0xF0 + r div 262144), char_of (0x80 + r div 4096 mod 64),
            char_of (0x80 + r div 64 mod 64), char_of (0x80 + r mod 64)])"

text \<open>\<open>string(runes)\<close>.\<close>

definition string_of_runes :: "nat list \<Rightarrow> string" where
  "string_of_runes rs = concat (map encode_rune rs)"

lemma segs_bytes: "concat (map snd (segs s)) = s"
  by (induction s rule: segs.induct) (auto split: prod.split)

lemma segs_eq_Nil [simp]: "segs s = [] \<longleftrightarrow> s = []"
  by (cases s) (auto split: prod.split)

lemma segs_nonempty: "p \<in> set (segs s) \<Longrightarrow> snd p \<noteq> []"
proof (induction s rule: segs.induct)
  case (2 c cs)
  obtain r n where d: "decode_rune (c # cs) = (r, n)" by fastforce
  moreover have "1 \<le> n" using decode_width [of "c # cs"] d by simp
  ultimately show ?case using 2 by (auto simp: d)
qed simp

lemma length_segs: "length (segs s) \<le> length s"
proof (induction s rule: segs.induct)
  case (2 c cs)
  obtain r n where d: "decode_rune (c # cs) = (r, n)" by fastforce
  moreover have "1 \<le> n" using decode_width [of "c # cs"] d by simp
  moreover have "length (segs (drop n (c # cs))) \<le> length (drop n (c # cs))"
    using 2 d by simp
  ultimately show ?case by (simp add: d)
qed simp

lemma length_runes: "length (runes s) \<le> length s"
  by (simp add: runes_def length_segs)

lemma segs_step: "decode_rune s = (r, n) \<Longrightarrow> s \<noteq> [] \<Longrightarrow> segs s = (r, take n s) # segs (drop n s)"
  by (cases s) auto

lemma segs_ascii: "byte c < 128 \<Longrightarrow> segs (c # cs) = (byte c, [c]) # segs cs"
  by (simp add: decode_rune_def)

lemma segs_all_ascii: "\<forall>c \<in> set s. byte c < 128 \<Longrightarrow> segs s = map (\<lambda>c. (byte c, [c])) s"
  by (induction s) (simp_all add: segs_ascii del: segs.simps(2))

lemma runes_all_ascii: "\<forall>c \<in> set s. byte c < 128 \<Longrightarrow> runes s = map byte s"
  by (simp add: runes_def segs_all_ascii)

lemma length_runes_ascii: "\<forall>c \<in> set s. byte c < 128 \<Longrightarrow> length (runes s) = length s"
  by (simp add: runes_all_ascii)

lemma decode_encode1: "r < 0x80 \<Longrightarrow> decode_rune (encode_rune r @ s) = (r, length (encode_rune r))"
  by (simp add: encode_rune_def decode_rune_def)

lemma decode_encode2:
  assumes "0x80 \<le> r" "r < 0x800"
  shows "decode_rune (encode_rune r @ s) = (r, length (encode_rune r))"
proof -
  define a b where "a = r div 64" and "b = r mod 64"
  have r: "r = a * 64 + b" unfolding a_def b_def by simp
  have bnd: "b < 64" unfolding b_def by simp
  have a: "2 \<le> a" "a < 32" using assms r bnd by linarith+
  have enc: "encode_rune r = [char_of (0xC0 + a), char_of (0x80 + b)]"
    using assms by (simp add: encode_rune_def a_def b_def)
  show ?thesis unfolding enc using bnd a r
    by (simp add: decode_rune_def decode2_def in_range_def Let_def)
qed

lemma decode_encode3:
  assumes "0x800 \<le> r" "r < 0x10000" "valid_rune r"
  shows "decode_rune (encode_rune r @ s) = (r, length (encode_rune r))"
proof -
  define a b c where "a = r div 4096" and "b = r div 64 mod 64" and "c = r mod 64"
  have a': "a = r div 64 div 64" by (simp add: a_def flip: div_mult2_eq)
  have r: "r = a * 4096 + b * 64 + c"
    using div_mult_mod_eq [of r 64] div_mult_mod_eq [of "r div 64" 64]
    unfolding a' b_def c_def by linarith
  have bnd: "b < 64" "c < 64" unfolding b_def c_def by auto
  have a: "a < 16" using assms(2) r by linarith
  have enc: "encode_rune r = [char_of (0xE0 + a), char_of (0x80 + b), char_of (0x80 + c)]"
    using assms by (simp add: encode_rune_def a_def b_def c_def)
  have z: "a = 0 \<Longrightarrow> 0x20 \<le> b" using assms(1) r bnd by linarith
  have d: "a = 13 \<Longrightarrow> b < 0x20" using assms(3) r bnd unfolding valid_rune_def by linarith
  show ?thesis unfolding enc using bnd z d r a
    by (auto simp: decode_rune_def decode3_def in_range_def Let_def)
qed

lemma encode4_arith:
  assumes "r = a * 262144 + b * 4096 + c * 64 + (d::nat)" "65536 \<le> r" "r < 0x110000" "b < 64" "c < 64" "d < 64"
  shows "a \<le> 4 \<and> (a = 0 \<longrightarrow> 16 \<le> b) \<and> (a = 4 \<longrightarrow> b < 16)"
  using assms by linarith

lemma decode_encode4:
  assumes "0x10000 \<le> r" "valid_rune r"
  shows "decode_rune (encode_rune r @ s) = (r, length (encode_rune r))"
proof -
  define a b c d where "a = r div 262144" and "b = r div 4096 mod 64" and "c = r div 64 mod 64"
    and "d = r mod 64"
  have b': "r div 4096 = r div 64 div 64" by (simp flip: div_mult2_eq)
  have a': "a = r div 64 div 64 div 64" by (simp add: a_def flip: div_mult2_eq)
  have r: "r = a * 262144 + b * 4096 + c * 64 + d"
    using div_mult_mod_eq [of r 64] div_mult_mod_eq [of "r div 64" 64]
      div_mult_mod_eq [of "r div 64 div 64" 64]
    unfolding a' b_def b' c_def d_def by linarith
  have bnd: "b < 64" "c < 64" "d < 64" unfolding b_def c_def d_def by auto
  have v: "r < 0x110000" using assms(2) by (simp add: valid_rune_def)
  have ab: "a \<le> 4" "a = 0 \<Longrightarrow> 16 \<le> b" "a = 4 \<Longrightarrow> b < 16"
    using encode4_arith [OF r assms(1) v bnd] by auto
  have enc: "encode_rune r = [char_of (0xF0 + a), char_of (0x80 + b), char_of (0x80 + c), char_of (0x80 + d)]"
    using assms by (simp add: encode_rune_def a_def b_def c_def d_def)
  have r': "(a * 262144 + b * 4096 + c * 64 + d, 4) = (r, 4::nat)" using r by simp
  consider "a = 0" | "a = 4" | "1 \<le> a" "a \<le> 3" using ab(1) by linarith
  then show ?thesis
    using bnd ab r unfolding enc
    by cases (simp_all add: decode_rune_def decode4_def in_range_def Let_def)
qed
lemma decode_encode:
  "valid_rune r \<Longrightarrow> decode_rune (encode_rune r @ s) = (r, length (encode_rune r))"
  using decode_encode1 [of r s] decode_encode2 [of r s] decode_encode3 [of r s] decode_encode4 [of r s]
  by linarith

lemma encode_rune_ne [simp]: "encode_rune r \<noteq> []"
  by (simp add: encode_rune_def)

lemma segs_encode: "valid_rune r \<Longrightarrow> segs (encode_rune r @ s) = (r, encode_rune r) # segs s"
  using segs_step [OF decode_encode [of r s]] by simp

text \<open>Encoding runes and decoding the bytes gives the runes back.\<close>

lemma segs_string_of_runes:
  "\<forall>r \<in> set rs. valid_rune r \<Longrightarrow> segs (string_of_runes rs) = map (\<lambda>r. (r, encode_rune r)) rs"
  by (induction rs) (simp_all add: string_of_runes_def segs_encode)

lemma runes_string_of_runes: "\<forall>r \<in> set rs. valid_rune r \<Longrightarrow> runes (string_of_runes rs) = rs"
  by (simp add: runes_def segs_string_of_runes comp_def)

text \<open>Every rune Go's decoder yields is a valid one.\<close>

lemma in_rangeE:
  assumes "in_range lo hi c" "128 \<le> lo" "hi \<le> 191"
  obtains x where "byte c = 128 + x" "x < 64" "lo \<le> 128 + x" "128 + x \<le> hi"
  using assms by (intro that [of "byte c - 128"]) (auto simp: in_range_def)

lemma decode2_valid: "194 \<le> b0 \<Longrightarrow> b0 \<le> 223 \<Longrightarrow> valid_rune (fst (decode2 b0 r))"
proof (cases "\<exists>c rs. r = c # rs \<and> in_range 128 191 c")
  case True
  assume b: "194 \<le> b0" "b0 \<le> 223"
  obtain c rs where r: "r = c # rs" "in_range 128 191 c" using True by blast
  obtain x where x: "byte c = 128 + x" "x < 64" using r(2) by (elim in_rangeE) simp_all
  define k where "k = b0 - 192"
  have "k < 32" using b by (simp add: k_def)
  then have "k * 64 + x < 2048" using x by linarith
  then show ?thesis using r x by (simp add: decode2_def valid_rune_def flip: k_def)
next
  case False
  then show ?thesis by (auto simp: decode2_def valid_rune_def rune_error_def split: list.split)
qed

lemma decode3_valid:
  assumes "224 \<le> b0" "b0 \<le> 239" "128 \<le> lo" "hi \<le> 191" "b0 = 237 \<Longrightarrow> hi \<le> 159"
  shows "valid_rune (fst (decode3 lo hi b0 r))"
proof (cases "\<exists>c d rs. r = c # d # rs \<and> in_range lo hi c \<and> in_range 128 191 d")
  case True
  then obtain c d rs where r: "r = c # d # rs" "in_range lo hi c" "in_range 128 191 d" by blast
  obtain x where x: "byte c = 128 + x" "x < 64" "128 + x \<le> hi"
    using r(2) assms(3,4) by (elim in_rangeE)
  obtain y where y: "byte d = 128 + y" "y < 64" using r(3) by (elim in_rangeE) simp_all
  define k where "k = b0 - 224"
  have k: "k < 16" using assms by (simp add: k_def)
  have b0: "b0 = 224 + k" using assms by (simp add: k_def)
  have "k = 13 \<Longrightarrow> x < 32" using assms(5) x(3) b0 by simp
  then have "\<not> (55296 \<le> k * 4096 + x * 64 + y \<and> k * 4096 + x * 64 + y \<le> 57343)"
    using x(2) y(2) by (cases "k < 13"; cases "k = 13") linarith+
  moreover have "k * 4096 + x * 64 + y < 65536" using k x y by linarith
  ultimately show ?thesis using r x y by (simp add: decode3_def valid_rune_def flip: k_def)
next
  case False
  then show ?thesis by (auto simp: decode3_def valid_rune_def rune_error_def split: list.split)
qed

lemma decode4_valid:
  assumes "240 \<le> b0" "b0 \<le> 244" "128 \<le> lo" "hi \<le> 191" "b0 = 240 \<Longrightarrow> 144 \<le> lo"
    "b0 = 244 \<Longrightarrow> hi \<le> 143"
  shows "valid_rune (fst (decode4 lo hi b0 r))"
proof (cases "\<exists>c d e rs. r = c # d # e # rs \<and> in_range lo hi c \<and> in_range 128 191 d \<and> in_range 128 191 e")
  case True
  then obtain c d e rs where r: "r = c # d # e # rs" "in_range lo hi c" "in_range 128 191 d"
    "in_range 128 191 e" by blast
  obtain x where x: "byte c = 128 + x" "x < 64" "lo \<le> 128 + x" "128 + x \<le> hi"
    using r(2) assms(3,4) by (elim in_rangeE)
  obtain y where y: "byte d = 128 + y" "y < 64" using r(3) by (elim in_rangeE) simp_all
  obtain z where z: "byte e = 128 + z" "z < 64" using r(4) by (elim in_rangeE) simp_all
  define k where "k = b0 - 240"
  have k: "k \<le> 4" using assms by (simp add: k_def)
  have b0: "b0 = 240 + k" using assms by (simp add: k_def)
  have "k = 0 \<Longrightarrow> 16 \<le> x" using assms(5) x(3) b0 by simp
  moreover have "k = 4 \<Longrightarrow> x < 16" using assms(6) x(4) b0 by simp
  ultimately have "65536 \<le> k * 262144 + x * 4096 + y * 64 + z"
    and "k * 262144 + x * 4096 + y * 64 + z < 1114112" using k x y z by linarith+
  then show ?thesis using r x y z by (simp add: decode4_def valid_rune_def flip: k_def)
next
  case False
  then show ?thesis by (auto simp: decode4_def valid_rune_def rune_error_def split: list.split)
qed

lemma decode_rune_valid: "valid_rune (fst (decode_rune s))"
proof (cases s)
  case Nil
  then show ?thesis by (simp add: decode_rune_def valid_rune_def rune_error_def)
next
  case (Cons c cs)
  have err: "valid_rune rune_error" by (simp add: valid_rune_def rune_error_def)
  have "byte c < 128 \<Longrightarrow> valid_rune (byte c)" by (simp add: valid_rune_def)
  then show ?thesis using err
    by (auto simp: Cons decode_rune_def Let_def intro!: decode2_valid decode3_valid decode4_valid)
qed

lemma runes_valid: "r \<in> set (runes s) \<Longrightarrow> valid_rune r"
proof (induction s rule: segs.induct)
  case (2 c cs)
  obtain q n where d: "decode_rune (c # cs) = (q, n)" by fastforce
  moreover have "valid_rune q" using decode_rune_valid [of "c # cs"] d by simp
  ultimately show ?case using 2 by (auto simp: runes_def)
qed (simp add: runes_def)

end
