(* ===== verification/GoStrings.thy ===== *)
theory GoStrings
  imports GoText
begin

text \<open>
  The functions of Go's \<open>strings\<close>, \<open>strconv\<close>, \<open>fmt\<close> and \<open>net/url\<close> packages that
  the bridge calls: trimming, prefixes, substring replacement, case folding, decimal printing and
  parsing, and percent escaping.

  Case folding of runes outside ASCII is Go's Unicode table, the parameter \<open>uf\<close> of
  \<open>equal_fold\<close>; the two runes outside ASCII that fold to an ASCII letter (Kelvin sign, long s)
  are written out.
\<close>

section \<open>Trimming, prefixes, substrings\<close>

definition is_space :: "nat \<Rightarrow> bool" where
  "is_space r \<longleftrightarrow> r = 32 \<or> (9 \<le> r \<and> r \<le> 13) \<or> r = 0x85 \<or> r = 0xA0 \<or> r = 0x1680
     \<or> (0x2000 \<le> r \<and> r \<le> 0x200A) \<or> r = 0x2028 \<or> r = 0x2029 \<or> r = 0x202F
     \<or> r = 0x205F \<or> r = 0x3000"

definition trim_segs :: "(nat \<times> string) list \<Rightarrow> (nat \<times> string) list" where
  "trim_segs ps = rev (dropWhile (is_space \<circ> fst) (rev (dropWhile (is_space \<circ> fst) ps)))"

text \<open>\<open>strings.TrimSpace\<close>.\<close>

definition trim_space :: "string \<Rightarrow> string" where
  "trim_space s = concat (map snd (trim_segs (segs s)))"

text \<open>\<open>strings.TrimSpace(s) == ""\<close>, the test every validation makes.\<close>

definition blank :: "string \<Rightarrow> bool" where
  "blank s \<longleftrightarrow> trim_space s = ''''"

definition has_prefix :: "string \<Rightarrow> string \<Rightarrow> bool" where
  "has_prefix s p \<longleftrightarrow> take (length p) s = p"

definition trim_prefix :: "string \<Rightarrow> string \<Rightarrow> string" where
  "trim_prefix s p = (if has_prefix s p then drop (length p) s else s)"

text \<open>\<open>strings.TrimRight(s, c)\<close> for a one-character ASCII cutset.\<close>

definition trim_right :: "char \<Rightarrow> string \<Rightarrow> string" where
  "trim_right c s = rev (dropWhile (\<lambda>x. x = c) (rev s))"

text \<open>\<open>strings.Contains(s, t)\<close> and \<open>strings.ReplaceAll\<close> for a non-empty \<open>old\<close>.\<close>

definition str_contains :: "string \<Rightarrow> string \<Rightarrow> bool" where
  "str_contains s t \<longleftrightarrow> sublist t s"

function replace_all :: "string \<Rightarrow> string \<Rightarrow> string \<Rightarrow> string" where
  "replace_all [] old new = []"
| "replace_all (c # cs) old new =
     (if old \<noteq> [] \<and> has_prefix (c # cs) old
      then new @ replace_all (drop (length old) (c # cs)) old new
      else c # replace_all cs old new)"
  by pat_completeness auto
termination
  by (relation "measure (\<lambda>(s, _, _). length s)") (auto simp: length_greater_0_conv [symmetric] simp del: length_greater_0_conv)

section \<open>Case\<close>

definition fold_rune :: "(nat \<Rightarrow> nat) \<Rightarrow> nat \<Rightarrow> nat" where
  "fold_rune uf r =
     (if 65 \<le> r \<and> r \<le> 90 then r + 32
      else if r < 128 then r
      else if r = 0x212A then 107
      else if r = 0x17F then 115
      else uf r)"

text \<open>\<open>strings.EqualFold\<close>.\<close>

definition equal_fold :: "(nat \<Rightarrow> nat) \<Rightarrow> string \<Rightarrow> string \<Rightarrow> bool" where
  "equal_fold uf s t \<longleftrightarrow> map (fold_rune uf) (runes s) = map (fold_rune uf) (runes t)"

text \<open>
  \<open>strings.ToLower\<close> as far as a comparison with an ASCII string can tell: every rune outside
  ASCII but the two written out has a lower case outside ASCII, and is left as it is.
\<close>

definition lower_rune :: "nat \<Rightarrow> nat" where
  "lower_rune r = (if 65 \<le> r \<and> r \<le> 90 then r + 32 else if r = 0x212A then 107
                   else if r = 0x130 then 105 else r)"

definition to_lower :: "string \<Rightarrow> string" where
  "to_lower s = string_of_runes (map lower_rune (runes s))"

section \<open>Decimal numbers\<close>

definition digit_char :: "nat \<Rightarrow> char" where
  "digit_char n = char_of (48 + n)"

fun nat_digits :: "nat \<Rightarrow> string" where
  "nat_digits n = (if n < 10 then [digit_char n] else nat_digits (n div 10) @ [digit_char (n mod 10)])"

declare nat_digits.simps [simp del]

text \<open>\<open>strconv.Itoa\<close>, and \<open>%d\<close>.\<close>

definition itoa :: "int \<Rightarrow> string" where
  "itoa n = (if n < 0 then ''-'' @ nat_digits (nat (- n)) else nat_digits (nat n))"

text \<open>\<open>%02d\<close>: zero-padded to two columns, the sign counted.\<close>

definition pad2 :: "int \<Rightarrow> string" where
  "pad2 n = (if 0 \<le> n \<and> n < 10 then ''0'' @ itoa n else itoa n)"

definition is_digit :: "char \<Rightarrow> bool" where
  "is_digit c \<longleftrightarrow> 48 \<le> byte c \<and> byte c \<le> 57"

definition digits_val :: "string \<Rightarrow> nat" where
  "digits_val s = foldl (\<lambda>a c. a * 10 + (byte c - 48)) 0 s"

text \<open>\<open>strconv.ParseInt(s, 10, 64)\<close> and, on 64-bit platforms, \<open>strconv.Atoi\<close>.\<close>

definition parse_int :: "string \<Rightarrow> int option" where
  "parse_int s =
     (let (neg, ds) = (case s of
            c # r \<Rightarrow> if c = CHR ''-'' then (True, r) else if c = CHR ''+'' then (False, r) else (False, s)
          | [] \<Rightarrow> (False, []))
      in if ds = [] \<or> \<not> list_all is_digit ds then None
         else let v = (if neg then - int (digits_val ds) else int (digits_val ds))
              in if in_int64 v then Some v else None)"

section \<open>Percent escapes\<close>

definition is_unreserved :: "char \<Rightarrow> bool" where
  "is_unreserved c \<longleftrightarrow> is_digit c \<or> (65 \<le> byte c \<and> byte c \<le> 90) \<or> (97 \<le> byte c \<and> byte c \<le> 122)
     \<or> c \<in> set ''-_.~''"

definition hex_digit :: "nat \<Rightarrow> char" where
  "hex_digit n = (if n < 10 then char_of (48 + n) else char_of (55 + n))"

definition percent :: "char \<Rightarrow> string" where
  "percent c = [CHR ''%'', hex_digit (byte c div 16), hex_digit (byte c mod 16)]"

text \<open>\<open>url.QueryEscape\<close> and \<open>url.PathEscape\<close>.\<close>

definition query_escape :: "string \<Rightarrow> string" where
  "query_escape s = concat (map (\<lambda>c. if is_unreserved c then [c]
     else if c = CHR '' '' then ''+'' else percent c) s)"

definition path_escape :: "string \<Rightarrow> string" where
  "path_escape s = concat (map (\<lambda>c. if is_unreserved c \<or> c \<in> set ''$&+:=@'' then [c] else percent c) s)"

section \<open>Facts on trimming\<close>

lemma trim_segs_split: "\<exists>as bs. ps = as @ trim_segs ps @ bs \<and> (\<forall>p \<in> set as \<union> set bs. is_space (fst p))"
proof -
  let ?d = "dropWhile (is_space \<circ> fst)" and ?t = "takeWhile (is_space \<circ> fst)"
  have 1: "ps = ?t ps @ ?d ps" by simp
  have 2: "?d ps = trim_segs ps @ rev (?t (rev (?d ps)))"
    using takeWhile_dropWhile_id [of "is_space \<circ> fst" "rev (?d ps)"]
    unfolding trim_segs_def by (metis rev_append rev_rev_ident)
  have "ps = ?t ps @ trim_segs ps @ rev (?t (rev (?d ps)))" using 1 2 by metis
  moreover have "\<forall>p \<in> set (?t ps) \<union> set (rev (?t (rev (?d ps)))). is_space (fst p)"
    by (auto dest: set_takeWhileD)
  ultimately show ?thesis by blast
qed

lemma trim_space_sublist: "sublist (trim_space s) s"
proof -
  obtain as bs where "segs s = as @ trim_segs (segs s) @ bs" using trim_segs_split by blast
  then have "s = concat (map snd as) @ trim_space s @ concat (map snd bs)"
    by (metis concat_append map_append segs_bytes trim_space_def)
  then show ?thesis unfolding sublist_def by blast
qed

lemma trim_segs_Nil: "trim_segs ps = [] \<longleftrightarrow> (\<forall>p \<in> set ps. is_space (fst p))"
proof
  assume "trim_segs ps = []"
  then show "\<forall>p \<in> set ps. is_space (fst p)" using trim_segs_split [of ps] by fastforce
next
  assume "\<forall>p \<in> set ps. is_space (fst p)"
  then have "dropWhile (is_space \<circ> fst) ps = []" by (simp only: dropWhile_eq_Nil_conv comp_def)
  then show "trim_segs ps = []" unfolding trim_segs_def by (simp only: rev.simps dropWhile.simps)
qed

lemma blank_iff: "blank s \<longleftrightarrow> (\<forall>r \<in> set (runes s). is_space r)"
proof -
  have "blank s \<longleftrightarrow> trim_segs (segs s) = []"
  proof
    assume "blank s"
    then have "\<forall>p \<in> set (trim_segs (segs s)). snd p = []" by (auto simp: blank_def trim_space_def)
    moreover have "set (trim_segs (segs s)) \<subseteq> set (segs s)"
      using trim_segs_split [of "segs s"] by (metis Un_iff set_append subsetI)
    ultimately show "trim_segs (segs s) = []"
      using segs_nonempty by (metis list.set_intros(1) neq_Nil_conv subsetD)
  qed (simp add: blank_def trim_space_def)
  then show ?thesis by (auto simp: trim_segs_Nil runes_def)
qed

lemma not_blank_Cons:
  assumes "byte c < 128" "\<not> is_space (byte c)"
  shows "\<not> blank (c # cs)"
  using assms by (simp add: blank_iff runes_def segs_ascii del: segs.simps(2))

lemma blank_Nil [simp]: "blank ''''"
  by (simp add: blank_iff runes_def)

lemma has_prefix_iff: "has_prefix s p \<longleftrightarrow> prefix p s"
  by (auto simp: has_prefix_def prefix_def) (metis append_take_drop_id)

section \<open>Facts on replacement\<close>

text \<open>
  What is left after every occurrence of \<open>t\<close> has been replaced by a bracketed text holds no
  \<open>t\<close>, provided \<open>t\<close> has no bracket and is no part of the replacement.
\<close>

lemma prefix_replace_all:
  assumes "prefix u (replace_all s t (CHR ''['' # ys))" "CHR ''['' \<notin> set u"
  shows "prefix u s"
  using assms
proof (induction s t "CHR ''['' # ys" arbitrary: u rule: replace_all.induct)
  case (2 c cs old)
  show ?case
  proof (cases u)
    case (Cons a v)
    with "2.prems" "2.hyps" show ?thesis by (auto split: if_splits)
  qed simp
qed simp

lemma sublist_skip: "x \<notin> set t \<Longrightarrow> sublist t (xs @ x # ys) \<Longrightarrow> sublist t xs \<or> sublist t ys"
proof (induction xs)
  case Nil
  then show ?case by (cases t) (auto simp: sublist_Cons_right)
next
  case (Cons a xs)
  have "prefix t (a # xs @ x # ys) \<Longrightarrow> prefix t (a # xs)"
  proof -
    assume p: "prefix t (a # xs @ x # ys)"
    then have "length t \<le> Suc (length xs)"
      using Cons.prems(1) by (metis append_Cons in_set_conv_nth length_Cons linorder_not_less
        nth_append_length prefix_def not_less_eq_eq Suc_le_lessD nth_append)
    then show ?thesis using p by (metis append_Cons prefix_append prefix_length_prefix prefix_order.refl prefixI length_Cons)
  qed
  with Cons show ?case by (auto simp: sublist_Cons_right)
qed

lemma replace_all_removes:
  assumes t: "t \<noteq> []" "CHR ''['' \<notin> set t" "CHR '']'' \<notin> set t" "\<not> sublist t xs"
  shows "\<not> sublist t (replace_all s t (CHR ''['' # xs @ '']''))"
proof (induction s rule: length_induct)
  case (1 s)
  show ?case
  proof (cases s)
    case Nil
    then show ?thesis using t by simp
  next
    case (Cons c cs)
    let ?new = "CHR ''['' # xs @ '']''"
    show ?thesis
    proof (cases "has_prefix s t")
      case True
      let ?R = "replace_all (drop (length t) s) t ?new"
      have "\<not> sublist t ?R" using 1 t(1) Cons by simp
      moreover have "replace_all s t ?new = [] @ CHR ''['' # (xs @ CHR '']'' # ?R)"
        using True t(1) Cons by simp
      ultimately show ?thesis using t(2,3,4) sublist_skip by (metis sublist_Nil_right t(1))
    next
      case False
      let ?R = "replace_all cs t ?new"
      have R: "replace_all s t ?new = c # ?R" using False Cons by simp
      have "\<not> sublist t ?R" using 1 Cons by simp
      moreover have "\<not> prefix t (c # ?R)"
      proof
        assume "prefix t (c # ?R)"
        then have "prefix t (replace_all s t ?new)" using R by simp
        then have "prefix t s" using t(2) by (rule prefix_replace_all)
        then show False using False by (simp add: has_prefix_iff)
      qed
      ultimately show ?thesis unfolding R by (simp add: sublist_Cons_right)
    qed
  qed
qed

section \<open>Facts on decimal numbers\<close>

lemma digit_char_simps [simp]: "n < 10 \<Longrightarrow> byte (digit_char n) = 48 + n"
  by (simp add: digit_char_def)

lemma is_digit_digit_char [simp]: "n < 10 \<Longrightarrow> is_digit (digit_char n)"
  by (simp add: is_digit_def)

lemma digit_char_values: "digit_char 0 = CHR ''0''" "digit_char (Suc 0) = CHR ''1''" "digit_char 2 = CHR ''2''"
  "digit_char 3 = CHR ''3''" "digit_char 4 = CHR ''4''" "digit_char 5 = CHR ''5''"
  "digit_char 6 = CHR ''6''" "digit_char 7 = CHR ''7''" "digit_char 8 = CHR ''8''"
  "digit_char 9 = CHR ''9''"
  by code_simp+

lemma nat_digits_all: "list_all is_digit (nat_digits n)"
proof (induction n rule: nat_digits.induct)
  case (1 n)
  show ?case using 1 by (subst nat_digits.simps) auto
qed

lemma nat_digits_nonempty [simp]: "nat_digits n \<noteq> []"
  by (subst nat_digits.simps) simp

lemma digits_val_nat_digits [simp]: "digits_val (nat_digits n) = n"
proof (induction n rule: nat_digits.induct)
  case (1 n)
  show ?case using 1 by (subst nat_digits.simps) (auto simp: digits_val_def)
qed

lemma is_digit_not_sign: "is_digit c \<Longrightarrow> c \<noteq> CHR ''-'' \<and> c \<noteq> CHR ''+''"
  by (auto simp: is_digit_def)

lemma parse_int_itoa:
  assumes "in_int64 n" shows "parse_int (itoa n) = Some n"
proof (cases "n < 0")
  case True
  then show ?thesis using assms nat_digits_all by (simp add: parse_int_def itoa_def)
next
  case False
  obtain c r where c: "nat_digits (nat n) = c # r" by (meson nat_digits_nonempty neq_Nil_conv)
  then have "is_digit c" using nat_digits_all [of "nat n"] by simp
  then show ?thesis using assms False nat_digits_all [of "nat n"] digits_val_nat_digits [of "nat n"] is_digit_not_sign [of c]
    by (simp add: parse_int_def itoa_def c)
qed

lemma parse_int_range: "parse_int s = Some n \<Longrightarrow> in_int64 n"
  by (auto simp: parse_int_def Let_def split: if_splits prod.splits)

lemma length_nat_digits: "n < 10 ^ k \<Longrightarrow> 0 < k \<Longrightarrow> length (nat_digits n) \<le> k"
proof (induction n arbitrary: k rule: nat_digits.induct)
  case (1 n)
  show ?case
  proof (cases "n < 10")
    case True then show ?thesis using 1 by (subst nat_digits.simps) simp
  next
    case False
    then have k: "1 < k" using "1.prems" by (cases "k = 1") auto
    then have "n div 10 < 10 ^ (k - 1)" using "1.prems"
      by (cases k) (auto simp: less_mult_imp_div_less mult.commute)
    then have "length (nat_digits (n div 10)) \<le> k - 1" using "1.IH" False k by simp
    then show ?thesis using False k by (subst nat_digits.simps) simp
  qed
qed

end
