(* ===== verification/Interfaces.thy ===== *)
theory Interfaces
  imports Prelude
begin

text \<open>
  The Go interfaces by which the components use each other, as locales: the methods a client calls
  and the laws a provider promises. Each locale is interpreted on the model of the component that
  implements it, in that component's theory; the client's lemmas are proved from the laws alone, in
  the theory of the client.

  \<open>push_recorder\<close> is \<open>busybar.PushTelemetryRecorder\<close>, implemented by the telemetry store;
  \<open>dispatcher\<close> is what the runner uses of the Home Assistant client: an \<open>Enqueue\<close> that never
  blocks, queues the stamped event or counts a refusal, and never does both; \<open>binding_store\<close>
  is the calendar store as the server and the poller use it: it can be bound once;
  \<open>event_tracker\<close> is \<open>calendar.EventTracker\<close>, implemented by the poller and read by the display:
  an event it reports is going on, and it carries the time left.
\<close>

locale push_recorder =
  fixes rec_attempt :: "'s \<Rightarrow> 's"
    and rec_result :: "gtime \<Rightarrow> bool \<Rightarrow> duration \<Rightarrow> string option \<Rightarrow> 's \<Rightarrow> 's"
    and rec_drop :: "'s \<Rightarrow> 's"
    and attempts :: "'s \<Rightarrow> int64"
    and successes :: "'s \<Rightarrow> int64"
    and failures :: "'s \<Rightarrow> int64"
    and drops :: "'s \<Rightarrow> int64"
  assumes attempt_counts: "attempts (rec_attempt s) = attempts s + 1"
    and attempt_frame: "successes (rec_attempt s) = successes s" "failures (rec_attempt s) = failures s"
      "drops (rec_attempt s) = drops s"
    and result_counts: "successes (rec_result t ok l e s) = successes s + (if ok then 1 else 0)"
      "failures (rec_result t ok l e s) = failures s + (if ok then 0 else 1)"
    and result_frame: "attempts (rec_result t ok l e s) = attempts s"
      "drops (rec_result t ok l e s) = drops s"
    and drop_counts: "drops (rec_drop s) = drops s + 1"
    and drop_frame: "attempts (rec_drop s) = attempts s" "successes (rec_drop s) = successes s"
      "failures (rec_drop s) = failures s"
begin

lemmas recorder_laws = attempt_counts attempt_frame result_counts result_frame drop_counts drop_frame

end

locale dispatcher =
  fixes enqueue :: "gtime \<Rightarrow> 'e \<Rightarrow> 'd \<Rightarrow> (bool \<times> 'd) option"
    and stamp :: "gtime \<Rightarrow> 'e \<Rightarrow> 'e"
    and queue :: "'d \<Rightarrow> 'e list"
    and refused :: "'d \<Rightarrow> int64"
    and valid :: "'d \<Rightarrow> bool"
  assumes enqueue_answers: "valid d \<Longrightarrow> enqueue t e d \<noteq> None"
    and enqueue_accepts: "valid d \<Longrightarrow> enqueue t e d = Some (True, d') \<Longrightarrow>
      queue d' = queue d @ [stamp t e] \<and> refused d' = refused d"
    and enqueue_refuses: "valid d \<Longrightarrow> enqueue t e d = Some (False, d') \<Longrightarrow>
      queue d' = queue d \<and> refused d' = refused d + 1"
    and enqueue_keeps: "valid d \<Longrightarrow> enqueue t e d = Some (b, d') \<Longrightarrow> valid d'"
begin

lemma enqueueE:
  assumes "valid d"
  obtains (accepted) d' where "enqueue t e d = Some (True, d')" "valid d'"
      "queue d' = queue d @ [stamp t e]" "refused d' = refused d"
    | (refused) d' where "enqueue t e d = Some (False, d')" "valid d'"
      "queue d' = queue d" "refused d' = refused d + 1"
proof -
  obtain b d' where e: "enqueue t e d = Some (b, d')" using enqueue_answers [OF assms] by fastforce
  have v: "valid d'" using enqueue_keeps [OF assms e] .
  show thesis
  proof (cases b)
    case True
    then have e': "enqueue t e d = Some (True, d')" using e by simp
    show thesis using accepted [OF e' v] enqueue_accepts [OF assms e'] by simp
  next
    case False
    then have e': "enqueue t e d = Some (False, d')" using e by simp
    show thesis using refused [OF e' v] enqueue_refuses [OF assms e'] by simp
  qed
qed

end

locale binding_store =
  fixes get :: "'s \<Rightarrow> 'b option"
    and save :: "'e \<Rightarrow> 'b \<Rightarrow> 's \<Rightarrow> 'x option \<times> 's"
  assumes save_bound: "get s = Some b \<Longrightarrow> save e b' s = (r, s') \<Longrightarrow> r \<noteq> None \<and> get s' = Some b"
    and save_succeeds: "get s = None \<Longrightarrow> save e b s = (None, s') \<Longrightarrow> get s' = Some b"
    and save_fails: "get s = None \<Longrightarrow> save e b s = (Some x, s') \<Longrightarrow> get s' = None"
begin

text \<open>A run of \<open>Save\<close> calls, and the results it gave.\<close>

fun saves :: "('e \<times> 'b) list \<Rightarrow> 's \<Rightarrow> 'x option list \<times> 's" where
  "saves [] s = ([], s)"
| "saves ((e, b) # calls) s = (case save e b s of (r, s1) \<Rightarrow>
     (case saves calls s1 of (rs, s2) \<Rightarrow> (r # rs, s2)))"

lemma saves_length: "saves calls s = (rs, s') \<Longrightarrow> length rs = length calls"
  by (induction calls s arbitrary: rs rule: saves.induct) (auto split: prod.splits)

lemma saves_bound:
  "get s = Some b \<Longrightarrow> saves calls s = (rs, s') \<Longrightarrow> get s' = Some b \<and> None \<notin> set rs"
proof (induction calls s arbitrary: rs rule: saves.induct)
  case (2 e b' calls s)
  then show ?case using save_bound [of s b e b'] by (fastforce split: prod.splits)
qed simp

lemma saves_first_wins:
  "get s = None \<Longrightarrow> saves calls s = (rs, s') \<Longrightarrow>
     (None \<notin> set rs \<and> get s' = None)
     \<or> (\<exists>i < length calls. rs ! i = None \<and> get s' = Some (snd (calls ! i))
          \<and> (\<forall>j < length calls. j \<noteq> i \<longrightarrow> rs ! j \<noteq> None))"
proof (induction calls s arbitrary: rs rule: saves.induct)
  case (2 e b calls s)
  obtain r s1 where r: "save e b s = (r, s1)" by fastforce
  obtain rs1 where rs1: "saves calls s1 = (rs1, s')" "rs = r # rs1"
    using "2.prems"(2) r by (auto split: prod.splits)
  show ?case
  proof (cases r)
    case None
    have "get s1 = Some b" using save_succeeds [OF "2.prems"(1)] r None by simp
    from saves_bound [OF this rs1(1)] have "get s' = Some b" "None \<notin> set rs1" by auto
    moreover have "length rs1 = length calls" using rs1(1) by (rule saves_length)
    ultimately show ?thesis
      using None rs1(2) by (intro disjI2 exI [of _ 0]) (auto simp: nth_Cons' all_set_conv_all_nth in_set_conv_nth)
  next
    case (Some x)
    have "get s1 = None" using save_fails [OF "2.prems"(1)] r Some by simp
    from "2.IH" [OF r [symmetric] this rs1(1)] show ?thesis
    proof
      assume "\<exists>i<length calls. rs1 ! i = None \<and> get s' = Some (snd (calls ! i)) \<and> (\<forall>j<length calls. j \<noteq> i \<longrightarrow> rs1 ! j \<noteq> None)"
      then obtain i where "i < length calls" "rs1 ! i = None" "get s' = Some (snd (calls ! i))"
          "\<forall>j<length calls. j \<noteq> i \<longrightarrow> rs1 ! j \<noteq> None" by blast
      then show ?thesis using Some rs1(2) by (intro disjI2 exI [of _ "Suc i"]) (auto simp: nth_Cons')
    qed (use Some rs1(2) in auto)
  qed
qed simp

end

locale event_tracker =
  fixes current :: "gtime \<Rightarrow> 's \<Rightarrow> 'e"
    and idle :: "'e \<Rightarrow> bool"
    and starts :: "'e \<Rightarrow> gtime"
    and ends :: "'e \<Rightarrow> gtime"
    and countdown :: "'e \<Rightarrow> string"
    and format :: "duration \<Rightarrow> string"
  assumes busy_is_current: "\<not> idle (current now s) \<Longrightarrow>
      starts (current now s) \<le> now \<and> now < ends (current now s)"
    and busy_counts_down: "\<not> idle (current now s) \<Longrightarrow>
      countdown (current now s) = format (time_sub (ends (current now s)) now)"
begin

lemma busy_time_left: "\<not> idle (current now s) \<Longrightarrow> 0 < time_sub (ends (current now s)) now"
  using busy_is_current by (simp add: time_sub_pos_iff)

end

end
