(* ===== verification/Telemetry.thy ===== *)
theory Telemetry
  imports GoStrings Interfaces
begin

text \<open>
  The telemetry store, \<open>internal/telemetry/store.go\<close>: connection state, cumulative counters,
  push and calendar metrics, and the ring buffer of the last ten event traces. Each method runs
  under the store's mutex, so it is one function on the state. Counters are \<open>int64\<close>.

  Lemmas: the ring buffer is the last ten traces ever recorded (a window on an append-only log),
  trace identifiers are consecutive, the event counters add up to the total, every delivery outcome
  is counted once, and recording an outcome touches only the trace it names.
\<close>

section \<open>Data\<close>

record connection_status =
  cs_connected :: bool
  cs_reconnect_count :: int64
  cs_last_connected_at :: gtime
  cs_last_disconnected_at :: gtime

record event_counters =
  ec_buttons :: int64
  ec_switches :: int64
  ec_encoders :: int64
  ec_other :: int64

record forwarding_telemetry =
  ft_total_dispatched :: int64
  ft_total_acked :: int64
  ft_total_failed :: int64

type_synonym forwarding_outcome = string

definition OutcomePending :: forwarding_outcome where "OutcomePending = ''pending''"
definition OutcomeSuccess :: forwarding_outcome where "OutcomeSuccess = ''success''"
definition OutcomeFailure :: forwarding_outcome where "OutcomeFailure = ''failure''"

record push_telemetry =
  pt_enabled :: bool
  pt_total_attempts :: int64
  pt_total_successes :: int64
  pt_total_failures :: int64
  pt_total_dropped :: int64
  pt_last_push_at :: gtime
  pt_last_latency_ms :: int
  pt_last_error :: string

record calendar_sync_telemetry =
  ct_enabled :: bool
  ct_total_polls :: int64
  ct_success_polls :: int64
  ct_failed_polls :: int64
  ct_last_poll_at :: gtime
  ct_last_error :: string
  ct_active_summary :: string

record event_trace =
  tr_id :: int64
  tr_timestamp :: gtime
  tr_event_type :: string
  tr_summary :: string
  tr_outcome :: forwarding_outcome
  tr_error :: string
  tr_latency_ms :: int

record snapshot =
  sn_start_time :: gtime
  sn_uptime :: duration
  sn_connection :: connection_status
  sn_counters :: event_counters
  sn_forwarding :: forwarding_telemetry
  sn_push :: push_telemetry
  sn_calendar_sync :: calendar_sync_telemetry
  sn_total_events :: int64
  sn_recent_events :: "event_trace list"

record tstore =
  ts_start_time :: gtime
  ts_connection :: connection_status
  ts_counters :: event_counters
  ts_forwarding :: forwarding_telemetry
  ts_push :: push_telemetry
  ts_calendar_sync :: calendar_sync_telemetry
  ts_ring_buffer :: "event_trace list"
  ts_next_id :: int64
  ts_total_events :: int64
  ts_max_ring_capacity :: nat
  ts_drop_count :: int64

section \<open>Operations\<close>

definition zero_connection :: connection_status where
  "zero_connection = \<lparr>cs_connected = False, cs_reconnect_count = 0, cs_last_connected_at = 0,
     cs_last_disconnected_at = 0\<rparr>"

definition zero_push :: push_telemetry where
  "zero_push = \<lparr>pt_enabled = False, pt_total_attempts = 0, pt_total_successes = 0,
     pt_total_failures = 0, pt_total_dropped = 0, pt_last_push_at = 0, pt_last_latency_ms = 0,
     pt_last_error = ''''\<rparr>"

definition zero_calendar_sync :: calendar_sync_telemetry where
  "zero_calendar_sync = \<lparr>ct_enabled = False, ct_total_polls = 0, ct_success_polls = 0,
     ct_failed_polls = 0, ct_last_poll_at = 0, ct_last_error = '''', ct_active_summary = ''''\<rparr>"

definition new_store :: "gtime \<Rightarrow> tstore" where
  "new_store now = \<lparr>ts_start_time = now, ts_connection = zero_connection,
     ts_counters = \<lparr>ec_buttons = 0, ec_switches = 0, ec_encoders = 0, ec_other = 0\<rparr>,
     ts_forwarding = \<lparr>ft_total_dispatched = 0, ft_total_acked = 0, ft_total_failed = 0\<rparr>,
     ts_push = zero_push, ts_calendar_sync = zero_calendar_sync, ts_ring_buffer = [],
     ts_next_id = 0, ts_total_events = 0, ts_max_ring_capacity = 10, ts_drop_count = 0\<rparr>"

definition set_connected :: "gtime \<Rightarrow> bool \<Rightarrow> tstore \<Rightarrow> tstore" where
  "set_connected now connected s =
     (let c = (ts_connection s)\<lparr>cs_connected := connected\<rparr> in
      s\<lparr>ts_connection := (if connected then c\<lparr>cs_last_connected_at := now\<rparr>
                          else c\<lparr>cs_last_disconnected_at := now\<rparr>)\<rparr>)"

definition increment_reconnect_count :: "tstore \<Rightarrow> tstore" where
  "increment_reconnect_count s =
     s\<lparr>ts_connection := (ts_connection s)\<lparr>cs_reconnect_count := cs_reconnect_count (ts_connection s) + 1\<rparr>\<rparr>"

text \<open>The category switch of \<open>RecordEvent\<close>.\<close>

definition count_event :: "string \<Rightarrow> event_counters \<Rightarrow> event_counters" where
  "count_event event_type c =
     (let t = to_lower event_type in
      if t = ''button'' \<or> t = ''buttons'' then c\<lparr>ec_buttons := ec_buttons c + 1\<rparr>
      else if t = ''switch'' \<or> t = ''switches'' then c\<lparr>ec_switches := ec_switches c + 1\<rparr>
      else if t = ''encoder'' \<or> t = ''encoders'' then c\<lparr>ec_encoders := ec_encoders c + 1\<rparr>
      else c\<lparr>ec_other := ec_other c + 1\<rparr>)"

definition new_trace :: "int64 \<Rightarrow> gtime \<Rightarrow> string \<Rightarrow> string \<Rightarrow> event_trace" where
  "new_trace i now event_type summary =
     \<lparr>tr_id = i, tr_timestamp = now, tr_event_type = event_type, tr_summary = summary,
      tr_outcome = OutcomePending, tr_error = '''', tr_latency_ms = 0\<rparr>"

definition ring_append :: "nat \<Rightarrow> event_trace \<Rightarrow> event_trace list \<Rightarrow> event_trace list" where
  "ring_append capacity t ring =
     (if length ring \<ge> capacity then tl ring @ [t] else ring @ [t])"

definition record_event :: "gtime \<Rightarrow> string \<Rightarrow> string \<Rightarrow> tstore \<Rightarrow> tstore \<times> int64" where
  "record_event now event_type summary s =
     (let i = ts_next_id s + 1;
          t = new_trace i now event_type summary
      in (s\<lparr>ts_next_id := i,
            ts_total_events := ts_total_events s + 1,
            ts_counters := count_event event_type (ts_counters s),
            ts_ring_buffer := ring_append (ts_max_ring_capacity s) t (ts_ring_buffer s)\<rparr>, i))"

text \<open>The update of the trace with the given identifier: the loop stops at the first match.\<close>

definition settle :: "forwarding_outcome \<Rightarrow> duration \<Rightarrow> string option \<Rightarrow> event_trace \<Rightarrow> event_trace" where
  "settle outcome latency err t =
     (let t' = t\<lparr>tr_outcome := outcome, tr_latency_ms := milliseconds latency\<rparr>
      in (case err of None \<Rightarrow> t' | Some e \<Rightarrow> t'\<lparr>tr_error := e\<rparr>))"

fun settle_trace :: "int64 \<Rightarrow> forwarding_outcome \<Rightarrow> duration \<Rightarrow> string option
    \<Rightarrow> event_trace list \<Rightarrow> event_trace list" where
  "settle_trace i outcome latency err [] = []"
| "settle_trace i outcome latency err (t # ts) =
     (if tr_id t = i then settle outcome latency err t # ts
      else t # settle_trace i outcome latency err ts)"

definition count_outcome :: "forwarding_outcome \<Rightarrow> forwarding_telemetry \<Rightarrow> forwarding_telemetry" where
  "count_outcome outcome f =
     (let f' = f\<lparr>ft_total_dispatched := ft_total_dispatched f + 1\<rparr> in
      if outcome = OutcomeSuccess then f'\<lparr>ft_total_acked := ft_total_acked f + 1\<rparr>
      else if outcome = OutcomeFailure then f'\<lparr>ft_total_failed := ft_total_failed f + 1\<rparr>
      else f')"

definition record_forward_outcome ::
  "int64 \<Rightarrow> forwarding_outcome \<Rightarrow> duration \<Rightarrow> string option \<Rightarrow> tstore \<Rightarrow> tstore" where
  "record_forward_outcome i outcome latency err s =
     s\<lparr>ts_forwarding := count_outcome outcome (ts_forwarding s),
       ts_ring_buffer := settle_trace i outcome latency err (ts_ring_buffer s)\<rparr>"

definition is_connected :: "tstore \<Rightarrow> bool" where
  "is_connected s = cs_connected (ts_connection s)"

definition take_snapshot :: "gtime \<Rightarrow> tstore \<Rightarrow> snapshot" where
  "take_snapshot now s =
     \<lparr>sn_start_time = ts_start_time s, sn_uptime = time_sub now (ts_start_time s),
      sn_connection = ts_connection s, sn_counters = ts_counters s,
      sn_forwarding = ts_forwarding s, sn_push = ts_push s,
      sn_calendar_sync = ts_calendar_sync s, sn_total_events = ts_total_events s,
      sn_recent_events = ts_ring_buffer s\<rparr>"

definition set_push_enabled :: "bool \<Rightarrow> tstore \<Rightarrow> tstore" where
  "set_push_enabled enabled s = s\<lparr>ts_push := (ts_push s)\<lparr>pt_enabled := enabled\<rparr>\<rparr>"

definition record_push_attempt :: "tstore \<Rightarrow> tstore" where
  "record_push_attempt s =
     s\<lparr>ts_push := (ts_push s)\<lparr>pt_total_attempts := pt_total_attempts (ts_push s) + 1\<rparr>\<rparr>"

definition record_push_result ::
  "gtime \<Rightarrow> bool \<Rightarrow> duration \<Rightarrow> string option \<Rightarrow> tstore \<Rightarrow> tstore" where
  "record_push_result now success latency err s =
     (let p = (ts_push s)\<lparr>pt_last_push_at := now, pt_last_latency_ms := milliseconds latency\<rparr> in
      s\<lparr>ts_push :=
        (if success
         then p\<lparr>pt_total_successes := pt_total_successes p + 1, pt_last_error := ''''\<rparr>
         else (let p' = p\<lparr>pt_total_failures := pt_total_failures p + 1\<rparr>
               in (case err of None \<Rightarrow> p' | Some e \<Rightarrow> p'\<lparr>pt_last_error := e\<rparr>)))\<rparr>)"

definition record_push_drop :: "tstore \<Rightarrow> tstore" where
  "record_push_drop s =
     s\<lparr>ts_push := (ts_push s)\<lparr>pt_total_dropped := pt_total_dropped (ts_push s) + 1\<rparr>\<rparr>"

definition record_drop :: "string list \<Rightarrow> tstore \<Rightarrow> tstore" where
  "record_drop reason s = s\<lparr>ts_drop_count := ts_drop_count s + 1\<rparr>"

definition drop_count :: "tstore \<Rightarrow> int64" where
  "drop_count s = ts_drop_count s"

definition set_calendar_sync_enabled :: "bool \<Rightarrow> tstore \<Rightarrow> tstore" where
  "set_calendar_sync_enabled enabled s =
     s\<lparr>ts_calendar_sync := (ts_calendar_sync s)\<lparr>ct_enabled := enabled\<rparr>\<rparr>"

definition record_calendar_poll ::
  "gtime \<Rightarrow> bool \<Rightarrow> string \<Rightarrow> string option \<Rightarrow> tstore \<Rightarrow> tstore" where
  "record_calendar_poll now success active_summary err s =
     (let c = (ts_calendar_sync s)\<lparr>ct_total_polls := ct_total_polls (ts_calendar_sync s) + 1,
                ct_last_poll_at := now, ct_active_summary := active_summary\<rparr> in
      s\<lparr>ts_calendar_sync :=
        (if success
         then c\<lparr>ct_success_polls := ct_success_polls c + 1, ct_last_error := ''''\<rparr>
         else (let c' = c\<lparr>ct_failed_polls := ct_failed_polls c + 1\<rparr>
               in (case err of None \<Rightarrow> c' | Some e \<Rightarrow> c'\<lparr>ct_last_error := e\<rparr>)))\<rparr>)"

section \<open>Histories\<close>

text \<open>Every method that changes the store, and a run of them.\<close>

datatype store_op =
    OpSetConnected gtime bool
  | OpIncrementReconnect
  | OpRecordEvent gtime string string
  | OpForwardOutcome int64 forwarding_outcome duration "string option"
  | OpSetPushEnabled bool
  | OpPushAttempt
  | OpPushResult gtime bool duration "string option"
  | OpPushDrop
  | OpDrop "string list"
  | OpSetCalendarSync bool
  | OpCalendarPoll gtime bool string "string option"

fun apply_op :: "store_op \<Rightarrow> tstore \<Rightarrow> tstore" where
  "apply_op (OpSetConnected t b) s = set_connected t b s"
| "apply_op OpIncrementReconnect s = increment_reconnect_count s"
| "apply_op (OpRecordEvent t ty su) s = fst (record_event t ty su s)"
| "apply_op (OpForwardOutcome i ou l e) s = record_forward_outcome i ou l e s"
| "apply_op (OpSetPushEnabled b) s = set_push_enabled b s"
| "apply_op OpPushAttempt s = record_push_attempt s"
| "apply_op (OpPushResult t ok l e) s = record_push_result t ok l e s"
| "apply_op OpPushDrop s = record_push_drop s"
| "apply_op (OpDrop r) s = record_drop r s"
| "apply_op (OpSetCalendarSync b) s = set_calendar_sync_enabled b s"
| "apply_op (OpCalendarPoll t ok su e) s = record_calendar_poll t ok su e s"

definition run_ops :: "store_op list \<Rightarrow> tstore \<Rightarrow> tstore" where
  "run_ops ops s = fold apply_op ops s"

lemmas store_op_defs = set_connected_def increment_reconnect_count_def record_event_def
  record_forward_outcome_def set_push_enabled_def record_push_attempt_def record_push_result_def
  record_push_drop_def record_drop_def set_calendar_sync_enabled_def record_calendar_poll_def

text \<open>What a trace says about the event itself, which no later outcome changes.\<close>

definition trace_key :: "event_trace \<Rightarrow> int64 \<times> gtime \<times> string \<times> string" where
  "trace_key t = (tr_id t, tr_timestamp t, tr_event_type t, tr_summary t)"

text \<open>The specification: the append-only log of the events recorded, numbered from \<open>n + 1\<close>.\<close>

fun event_log :: "int64 \<Rightarrow> store_op list \<Rightarrow> (int64 \<times> gtime \<times> string \<times> string) list" where
  "event_log n [] = []"
| "event_log n (OpRecordEvent t ty su # ops) = (n + 1, t, ty, su) # event_log (n + 1) ops"
| "event_log n (_ # ops) = event_log n ops"

section \<open>The ring buffer is a window on the log\<close>

lemma settle_simps [simp]:
  "tr_id (settle ou l e t) = tr_id t" "tr_timestamp (settle ou l e t) = tr_timestamp t"
  "tr_event_type (settle ou l e t) = tr_event_type t" "tr_summary (settle ou l e t) = tr_summary t"
  "tr_outcome (settle ou l e t) = ou" "tr_latency_ms (settle ou l e t) = milliseconds l"
  by (simp_all add: settle_def Let_def split: option.split)

lemma map_key_settle [simp]:
  "map trace_key (settle_trace i ou l e ts) = map trace_key ts"
  by (induction ts) (auto simp: trace_key_def)

lemma length_settle [simp]: "length (settle_trace i ou l e ts) = length ts"
  by (induction ts) auto

lemma map_key_ring_append [simp]:
  "map trace_key (ring_append k t ring) =
     (if length ring \<ge> k then tl (map trace_key ring) @ [trace_key t] else map trace_key ring @ [trace_key t])"
  by (simp add: ring_append_def map_tl)

definition ring_of :: "int64 \<Rightarrow> (int64 \<times> gtime \<times> string \<times> string) list \<Rightarrow> tstore \<Rightarrow> bool" where
  "ring_of n log s \<longleftrightarrow> ts_max_ring_capacity s = 10 \<and> ts_next_id s = n
     \<and> map trace_key (ts_ring_buffer s) = last_n 10 log"

lemma ring_of_event:
  assumes "ring_of n log s"
  shows "ring_of (n + 1) (log @ [(n + 1, t, ty, su)]) (fst (record_event t ty su s))"
proof -
  have k: "trace_key (new_trace (n + 1) t ty su) = (n + 1, t, ty, su)"
    by (simp add: trace_key_def new_trace_def)
  have m: "map trace_key (ts_ring_buffer s) = last_n 10 log"
    using assms by (simp add: ring_of_def)
  then have "length (ts_ring_buffer s) = length (last_n 10 log)" by (metis length_map)
  then show ?thesis using assms m
    by (simp add: ring_of_def record_event_def Let_def k last_n_snoc)
qed

lemma ring_of_other:
  assumes "ring_of n log s" "\<And>t ty su. op \<noteq> OpRecordEvent t ty su"
  shows "ring_of n log (apply_op op s)"
  using assms by (cases op) (auto simp: ring_of_def store_op_defs Let_def)

lemma ring_of_run:
  "ring_of n log s \<Longrightarrow> ring_of (n + of_nat (length (event_log n ops))) (log @ event_log n ops) (run_ops ops s)"
proof (induction ops arbitrary: n log s)
  case Nil
  then show ?case by (simp add: run_ops_def)
next
  case (Cons op ops)
  show ?case
  proof (cases "\<exists>t ty su. op = OpRecordEvent t ty su")
    case True
    then obtain t ty su where op: "op = OpRecordEvent t ty su" by blast
    from Cons.IH [OF ring_of_event [OF Cons.prems, of t ty su]] show ?thesis
      by (simp add: op run_ops_def add.assoc)
  next
    case False
    then have "event_log n (op # ops) = event_log n ops" by (cases op) auto
    moreover have "ring_of n log (apply_op op s)" using Cons.prems False by (intro ring_of_other) auto
    ultimately show ?thesis using Cons.IH by (simp add: run_ops_def)
  qed
qed

lemma ring_of_new: "ring_of 0 [] (new_store t0)"
  by (simp add: ring_of_def new_store_def)

section \<open>Identifiers\<close>

lemma event_log_ids:
  "map fst (event_log n ops) = map (\<lambda>k. n + 1 + of_nat k) [0..<length (event_log n ops)]"
proof (induction ops arbitrary: n)
  case (Cons op ops)
  have "map (\<lambda>k. n + 1 + of_nat k) [0..<Suc m] = (n + 1) # map (\<lambda>k. n + 1 + 1 + of_nat k) [0..<m]" for m
    by (subst upt_conv_Cons) (simp_all add: map_Suc_upt [symmetric] add_ac del: upt_Suc)
  with Cons show ?case by (cases op) auto
qed simp

lemma of_nat_window_inj:
  assumes "a \<le> b" "b - a < 10" "(of_nat a :: int64) = of_nat b"
  shows "a = b"
proof -
  have "(of_nat b :: int64) = of_nat a + of_nat (b - a)" using assms(1) by (simp flip: of_nat_add)
  then have "(of_nat (b - a) :: int64) = 0" using assms(3) by simp
  then have d: "(2::nat) ^ LENGTH(64) dvd b - a" by (simp only: word_of_nat_eq_0_iff)
  have "\<not> 0 < b - a"
  proof
    assume "0 < b - a"
    with d have "(2::nat) ^ LENGTH(64) \<le> b - a" by (rule dvd_imp_le)
    moreover have "(10::nat) \<le> 2 ^ LENGTH(64)" by simp
    ultimately show False using assms(2) by linarith
  qed
  then show ?thesis using assms(1) by linarith
qed

lemma ids_window_distinct:
  assumes "k - j \<le> 10"
  shows "distinct (map (\<lambda>i. (n::int64) + 1 + of_nat i) [j..<k])"
proof -
  have "inj_on (\<lambda>i. (n::int64) + 1 + of_nat i) {j..<k}"
  proof (rule inj_onI)
    fix a b assume ab: "a \<in> {j..<k}" "b \<in> {j..<k}" "n + 1 + of_nat a = n + 1 + (of_nat b :: int64)"
    from ab(3) have eq: "(of_nat a :: int64) = of_nat b" by (simp only: add_left_cancel)
    show "a = b"
    proof (cases "a \<le> b")
      case True
      moreover have "b - a < 10" using ab(1,2) assms by auto
      ultimately show ?thesis using eq by (rule of_nat_window_inj)
    next
      case False
      then have "b \<le> a" by simp
      moreover have "a - b < 10" using ab(1,2) assms by auto
      ultimately show ?thesis using of_nat_window_inj [OF _ _ eq [symmetric]] by simp
    qed
  qed
  then show ?thesis by (simp add: distinct_map)
qed

lemma ring_key_id: "map tr_id ts = map fst (map trace_key ts)"
  by (simp add: trace_key_def comp_def)

lemma ring_of_distinct: "ring_of n (event_log m ops) s \<Longrightarrow> distinct (map tr_id (ts_ring_buffer s))"
proof -
  assume r: "ring_of n (event_log m ops) s"
  have "map tr_id (ts_ring_buffer s) = last_n 10 (map fst (event_log m ops))"
    using r by (simp only: ring_key_id ring_of_def last_n_map)
  also have "\<dots> = map (\<lambda>i. m + 1 + of_nat i)
      [length (event_log m ops) - 10..<length (event_log m ops)]"
    by (simp add: event_log_ids last_n_def drop_map)
  finally show ?thesis using ids_window_distinct by simp
qed

lemma ring_of_reachable:
  "ring_of (of_nat (length (event_log 0 ops))) (event_log 0 ops) (run_ops ops (new_store t0))"
  using ring_of_run [OF ring_of_new, of ops t0] by simp

lemma settle_trace_distinct:
  "distinct (map tr_id ts) \<Longrightarrow>
     settle_trace i ou l e ts = map (\<lambda>t. if tr_id t = i then settle ou l e t else t) ts"
proof (induction ts)
  case (Cons t ts)
  then have "tr_id t \<notin> tr_id ` set ts" by simp
  then have "tr_id t = i \<Longrightarrow> map (\<lambda>t. if tr_id t = i then settle ou l e t else t) ts = ts"
    by (intro map_idI) (metis image_eqI)
  with Cons show ?case by simp
qed simp

section \<open>Counters\<close>

definition other_outcome :: "store_op \<Rightarrow> bool" where
  "other_outcome op = (case op of
     OpForwardOutcome i ou l e \<Rightarrow> ou \<noteq> OutcomeSuccess \<and> ou \<noteq> OutcomeFailure | _ \<Rightarrow> False)"

definition counter_sum :: "event_counters \<Rightarrow> int64" where
  "counter_sum c = ec_buttons c + ec_switches c + ec_encoders c + ec_other c"

definition balanced :: "nat \<Rightarrow> tstore \<Rightarrow> bool" where
  "balanced k s \<longleftrightarrow>
     ts_total_events s = ts_next_id s
     \<and> ts_total_events s = counter_sum (ts_counters s)
     \<and> ft_total_dispatched (ts_forwarding s)
         = ft_total_acked (ts_forwarding s) + ft_total_failed (ts_forwarding s) + of_nat k
     \<and> ct_total_polls (ts_calendar_sync s)
         = ct_success_polls (ts_calendar_sync s) + ct_failed_polls (ts_calendar_sync s)"

lemma counter_sum_count_event [simp]: "counter_sum (count_event ty c) = counter_sum c + 1"
  by (simp add: counter_sum_def count_event_def Let_def)

lemma balanced_apply_op:
  "balanced k s \<Longrightarrow> balanced (if other_outcome op then Suc k else k) (apply_op op s)"
  by (cases op)
    (auto simp: balanced_def other_outcome_def store_op_defs count_outcome_def
      OutcomeSuccess_def OutcomeFailure_def Let_def split: option.split)

lemma balanced_run:
  "balanced k s \<Longrightarrow> balanced (k + length (filter other_outcome ops)) (run_ops ops s)"
proof (induction ops arbitrary: k s)
  case (Cons op ops)
  from Cons.IH [OF balanced_apply_op [OF Cons.prems, of op]] show ?case
    by (simp add: run_ops_def split: if_splits)
qed (simp add: run_ops_def)

lemma balanced_new: "balanced 0 (new_store t0)"
  by (simp add: balanced_def counter_sum_def new_store_def zero_calendar_sync_def)

section \<open>The store as a recorder of pushes\<close>

interpretation tpush: push_recorder record_push_attempt record_push_result record_push_drop
  "pt_total_attempts \<circ> ts_push" "pt_total_successes \<circ> ts_push" "pt_total_failures \<circ> ts_push"
  "pt_total_dropped \<circ> ts_push"
  by unfold_locales
    (auto simp: record_push_attempt_def record_push_result_def record_push_drop_def Let_def
      split: option.split)

section \<open>Properties\<close>

text \<open>
  C16: after any sequence of calls on a new store, the ring buffer holds exactly the last ten events
  ever recorded, oldest first, each with the identifier it was given (events are numbered from 1),
  its time, type and summary, whatever outcomes, drops, pushes and polls were recorded in between.
\<close>

theorem ring_is_log_window:
  "map trace_key (ts_ring_buffer (run_ops ops (new_store t0))) = last_n 10 (event_log 0 ops)"
  using ring_of_reachable [of ops t0] by (simp add: ring_of_def)

text \<open>
  C35: in every reachable store, recording a delivery outcome for an identifier changes the one
  trace that has it, and no other; when that trace has been evicted the ring buffer is unchanged.
  Identifiers in the ring never repeat, even when the 64-bit counter wraps.
\<close>

theorem outcome_settles_one_trace:
  "let s = run_ops ops (new_store t0); s' = record_forward_outcome i ou l e s in
     distinct (map tr_id (ts_ring_buffer s))
     \<and> ts_ring_buffer s' = map (\<lambda>t. if tr_id t = i then settle ou l e t else t) (ts_ring_buffer s)"
  using ring_of_distinct [OF ring_of_reachable, of ops t0]
  by (simp add: Let_def record_forward_outcome_def settle_trace_distinct)

text \<open>
  C34: the counters of every reachable store agree: the total equals the last identifier and the sum
  of the four categories, every dispatch is an acknowledgement, a failure or (never used by the
  code) another outcome, and every poll succeeded or failed.
\<close>

theorem counters_balanced:
  "balanced (length (filter other_outcome ops)) (run_ops ops (new_store t0))"
  using balanced_run [OF balanced_new, of ops] by simp

end
