(* ===== verification/HassConfig.thy ===== *)
theory HassConfig
  imports GoStrings
begin

text \<open>
  \<open>internal/hass/config.go\<close>: the configuration of the Home Assistant client and its validation.
  \<open>url.ParseRequestURI\<close> is the parameter \<open>uri\<close>: an error text, or the scheme and the host.
\<close>

type_synonym uri_parser = "string \<Rightarrow> string + (string \<times> string)"

record hass_config =
  hc_base_url :: string
  hc_token :: string
  hc_event_type :: string
  hc_request_timeout :: duration
  hc_ttl :: duration
  hc_max_retries :: int
  hc_buffer_size :: int
  hc_retry_backoff :: duration

definition hass_default_config :: hass_config where
  "hass_default_config = \<lparr>hc_base_url = ''http://homeassistant.local:8123'', hc_token = '''',
     hc_event_type = ''busybar_event'', hc_request_timeout = 2 * second,
     hc_ttl = 2500 * millisecond, hc_max_retries = 2, hc_buffer_size = 100,
     hc_retry_backoff = 100 * millisecond\<rparr>"

datatype hass_config_error = ErrMissingToken | ErrInvalidBaseURL string | ErrInvalidRequestTimeout
  | ErrInvalidTTL | ErrInvalidMaxRetries | ErrInvalidBufferSize | ErrInvalidRetryBackoff

text \<open>The URL checks, shared in their shape by the two configurations; the text is the detail.\<close>

definition check_http_url :: "uri_parser \<Rightarrow> string \<Rightarrow> string option" where
  "check_http_url uri s = (case uri s of
     Inl err \<Rightarrow> Some err
   | Inr (scheme, host) \<Rightarrow>
       if scheme \<noteq> ''http'' \<and> scheme \<noteq> ''https'' then Some (''scheme '' @ scheme @ '' not supported'')
       else if host = '''' then Some ''host is empty'' else None)"

definition hass_validate :: "uri_parser \<Rightarrow> hass_config \<Rightarrow> hass_config_error option" where
  "hass_validate uri c =
     (if blank (hc_token c) then Some ErrMissingToken
      else if blank (hc_base_url c) then Some (ErrInvalidBaseURL ''empty URL'')
      else (case check_http_url uri (hc_base_url c) of
        Some d \<Rightarrow> Some (ErrInvalidBaseURL d)
      | None \<Rightarrow>
          if hc_request_timeout c \<le> 0 then Some ErrInvalidRequestTimeout
          else if hc_ttl c \<le> 0 then Some ErrInvalidTTL
          else if hc_max_retries c \<le> 0 then Some ErrInvalidMaxRetries
          else if hc_buffer_size c \<le> 0 then Some ErrInvalidBufferSize
          else if hc_retry_backoff c \<le> 0 then Some ErrInvalidRetryBackoff
          else None))"

lemma check_http_url_None:
  "check_http_url uri s = None \<longleftrightarrow>
     (\<exists>host. host \<noteq> '''' \<and> (uri s = Inr (''http'', host) \<or> uri s = Inr (''https'', host)))"
  by (auto simp: check_http_url_def split: sum.split)

lemma hass_validate_None:
  "hass_validate uri c = None \<longleftrightarrow>
     \<not> blank (hc_token c) \<and> \<not> blank (hc_base_url c) \<and> check_http_url uri (hc_base_url c) = None
     \<and> 0 < hc_request_timeout c \<and> 0 < hc_ttl c \<and> 0 < hc_max_retries c \<and> 0 < hc_buffer_size c
     \<and> 0 < hc_retry_backoff c"
  by (auto simp: hass_validate_def split: option.split)

end
