(* ===== verification/Float64.thy ===== *)
theory Float64
  imports Complex_Main Prelude
begin

text \<open>
  Go's \<open>float64\<close> as far as the bridge computes with it: the conversion of an \<open>int64\<close>, one
  product, and the conversion back. A finite \<open>float64\<close> is the rational it stands for, and
  \<open>f64\<close> is the rounding of an exact result to 53 significant bits, ties to even. Magnitudes stay
  far below the largest \<open>float64\<close>, so there is no infinity. Below one half, where \<open>float64\<close> is
  finer than \<open>2 ^ -53\<close>, \<open>f64\<close> keeps only that absolute precision: every such result is
  truncated to 0 by the code.
\<close>

fun bits :: "nat \<Rightarrow> nat" where
  "bits n = (if n = 0 then 0 else Suc (bits (n div 2)))"

declare bits.simps [simp del]

definition round_even :: "rat \<Rightarrow> int" where
  "round_even q = (let f = \<lfloor>q\<rfloor>; d = q - of_int f in
     if d < 1/2 then f else if d > 1/2 then f + 1 else if even f then f else f + 1)"

definition f64_pos :: "rat \<Rightarrow> rat" where
  "f64_pos q = (let k = bits (nat \<lfloor>q\<rfloor>) in
     if k \<le> 53 then of_int (round_even (q * 2 ^ (53 - k))) / 2 ^ (53 - k)
     else of_int (round_even (q / 2 ^ (k - 53))) * 2 ^ (k - 53))"

definition f64 :: "rat \<Rightarrow> rat" where
  "f64 q = (if q < 0 then - f64_pos (- q) else f64_pos q)"

text \<open>Conversion to an integer truncates towards zero; outside \<open>int64\<close> the result depends on
  the platform, and is the parameter \<open>ovf\<close>.\<close>

definition f64_trunc :: "rat \<Rightarrow> int" where
  "f64_trunc q = (if q < 0 then \<lceil>q\<rceil> else \<lfloor>q\<rfloor>)"

definition f64_to_int64 :: "(rat \<Rightarrow> int) \<Rightarrow> rat \<Rightarrow> int" where
  "f64_to_int64 ovf q = (let n = f64_trunc q in if in_int64 n then n else ovf q)"

section \<open>Facts\<close>

lemma bits_bounds: "n \<noteq> 0 \<Longrightarrow> 2 ^ (bits n - 1) \<le> n \<and> n < 2 ^ bits n"
proof (induction n rule: bits.induct)
  case (1 n)
  show ?case
  proof (cases "n div 2 = 0")
    case True
    then have "n = 1" using 1(2) by linarith
    then show ?thesis by (simp add: bits.simps)
  next
    case False
    then have IH: "2 ^ (bits (n div 2) - 1) \<le> n div 2" "n div 2 < 2 ^ bits (n div 2)"
      using 1 by auto
    have b: "bits n = Suc (bits (n div 2))" using 1(2) by (subst bits.simps) simp
    have "bits (n div 2) \<noteq> 0" using False by (subst bits.simps) simp
    then obtain j where j: "bits (n div 2) = Suc j" by (cases "bits (n div 2)") auto
    show ?thesis using IH unfolding b j by simp linarith
  qed
qed

lemma bits_le: "n < 2 ^ k \<Longrightarrow> bits n \<le> k"
proof (cases "n = 0")
  case False
  assume "n < 2 ^ k"
  then have "(2::nat) ^ (bits n - 1) < 2 ^ k" using bits_bounds [OF False] by linarith
  then show "bits n \<le> k" by simp
qed (simp add: bits.simps)

lemma round_even_int [simp]: "round_even (of_int z) = z"
  by (simp add: round_even_def)

lemma round_even_le: "q \<le> of_int z \<Longrightarrow> round_even q \<le> z"
proof -
  assume q: "q \<le> of_int z"
  then have f: "\<lfloor>q\<rfloor> \<le> z" by (metis floor_mono floor_of_int)
  show "round_even q \<le> z"
  proof (cases "\<lfloor>q\<rfloor> = z")
    case True
    then have "q = of_int z" using q by (metis antisym of_int_floor_le)
    then show ?thesis by simp
  next
    case False
    then show ?thesis using f by (simp add: round_even_def Let_def)
  qed
qed

lemma round_even_ge: "0 \<le> q \<Longrightarrow> 0 \<le> round_even q"
  by (simp add: round_even_def Let_def)

lemma f64_pos_nonneg: "0 \<le> q \<Longrightarrow> 0 \<le> f64_pos q"
  by (simp add: f64_pos_def Let_def round_even_ge)

lemma f64_nonneg: "0 \<le> q \<Longrightarrow> 0 \<le> f64 q"
  by (simp add: f64_def f64_pos_nonneg)

lemma bits_floor_le: "(q::rat) < 2 ^ 53 \<Longrightarrow> bits (nat \<lfloor>q\<rfloor>) \<le> 53"
proof -
  assume "q < 2 ^ 53"
  then obtain f where f: "f = \<lfloor>q\<rfloor>" "f < 2 ^ 53" by (simp add: floor_less_iff)
  from f(2) have "nat f < 2 ^ 53" by auto
  then show ?thesis unfolding f(1) by (rule bits_le)
qed

text \<open>Rounding never passes an integer that is itself a \<open>float64\<close>.\<close>

lemma f64_le_int:
  assumes "0 \<le> q" "q \<le> of_int n" "n < 2 ^ 53"
  shows "f64 q \<le> of_int n"
proof -
  have "(of_int n :: rat) < of_int (2 ^ 53)" using assms(3) by (simp only: of_int_less_iff)
  then have "q < 2 ^ 53" using assms(2) by simp
  then have k: "bits (nat \<lfloor>q\<rfloor>) \<le> 53" by (rule bits_floor_le)
  define j where "j = 53 - bits (nat \<lfloor>q\<rfloor>)"
  have "q * 2 ^ j \<le> of_int (n * 2 ^ j)" using assms(2) by simp
  then have "round_even (q * 2 ^ j) \<le> n * 2 ^ j" by (rule round_even_le)
  then have "(of_int (round_even (q * 2 ^ j)) :: rat) \<le> of_int (n * 2 ^ j)"
    by (simp only: of_int_le_iff)
  then have "of_int (round_even (q * 2 ^ j)) / 2 ^ j \<le> (of_int n :: rat)"
    by (simp add: divide_le_eq)
  then show ?thesis using assms(1) k by (simp add: f64_def f64_pos_def Let_def j_def)
qed

text \<open>A multiple of a power of two that fits in 53 bits is exact.\<close>

lemma f64_pos_exact:
  assumes "0 \<le> m" "m < 2 ^ 53" "i \<le> 53"
  shows "f64_pos (of_int m / 2 ^ i) = of_int m / 2 ^ i"
proof -
  define q :: rat where "q = of_int m / 2 ^ i"
  define k where "k = bits (nat \<lfloor>q\<rfloor>)"
  have q0: "0 \<le> q" using assms(1) by (simp add: q_def)
  have m: "(of_int m :: rat) < 2 ^ 53"
    using assms(2) by (metis of_int_less_iff of_int_numeral of_int_power)
  have "q < 2 ^ (53 - i)"
  proof -
    have "(2::rat) ^ (53 - i) * 2 ^ i = 2 ^ 53" using assms(3) by (simp flip: power_add)
    then show ?thesis using m by (simp add: q_def divide_less_eq)
  qed
  then have "\<lfloor>q\<rfloor> < 2 ^ (53 - i)" by (simp add: floor_less_iff)
  then have "nat \<lfloor>q\<rfloor> < 2 ^ (53 - i)" using q0 by (simp add: nat_less_iff)
  then have k: "k \<le> 53 - i" unfolding k_def by (rule bits_le)
  have "q * 2 ^ (53 - k) = of_int (m * 2 ^ (53 - k - i))"
  proof -
    have "(2::rat) ^ (53 - k) = 2 ^ (53 - k - i) * 2 ^ i" using k assms(3) by (simp flip: power_add)
    then show ?thesis by (simp add: q_def)
  qed
  then have "round_even (q * 2 ^ (53 - k)) = m * 2 ^ (53 - k - i)" by (metis round_even_int)
  moreover have "(of_int (m * 2 ^ (53 - k - i)) :: rat) / 2 ^ (53 - k) = q"
    using \<open>q * 2 ^ (53 - k) = _\<close> by (metis nonzero_mult_div_cancel_right power_not_zero zero_neq_numeral)
  moreover have "k \<le> 53" using k by simp
  ultimately have "f64_pos q = q" by (simp add: f64_pos_def Let_def flip: k_def)
  then show ?thesis by (simp add: q_def)
qed

lemma f64_exact:
  assumes "\<bar>m\<bar> < 2 ^ 53" "i \<le> 53"
  shows "f64 (of_int m / 2 ^ i) = of_int m / 2 ^ i"
proof (cases "m < 0")
  case True
  then have "f64_pos (of_int (- m) / 2 ^ i) = of_int (- m) / 2 ^ i"
    using assms by (intro f64_pos_exact) auto
  then show ?thesis using True by (simp add: f64_def divide_less_0_iff)
next
  case False
  then show ?thesis using assms f64_pos_exact [of m i] by (simp add: f64_def divide_less_0_iff)
qed

lemma f64_int: "\<bar>m\<bar> < 2 ^ 53 \<Longrightarrow> f64 (of_int m) = of_int m"
  using f64_exact [of m 0] by simp

lemma f64_trunc_int [simp]: "f64_trunc (of_int n) = n"
  by (simp add: f64_trunc_def)

lemma f64_trunc_le: "q \<le> of_int n \<Longrightarrow> 0 \<le> q \<Longrightarrow> f64_trunc q \<le> n"
  by (simp add: f64_trunc_def) (metis floor_mono floor_of_int)

lemma f64_trunc_nonneg: "0 \<le> q \<Longrightarrow> 0 \<le> f64_trunc q"
  by (simp add: f64_trunc_def)

lemma round_even_ge_int: "of_int z \<le> q \<Longrightarrow> z \<le> round_even q"
proof -
  assume q: "of_int z \<le> q"
  then have "z \<le> \<lfloor>q\<rfloor>" by (simp add: le_floor_iff)
  then show "z \<le> round_even q" by (simp add: round_even_def Let_def)
qed

lemma f64_ge_int:
  assumes "0 \<le> n" "of_int n \<le> q" "q < 2 ^ 53"
  shows "of_int n \<le> f64 q"
proof -
  have q0: "0 \<le> q" using assms(1,2) by (meson of_int_0_le_iff order_trans)
  have k: "bits (nat \<lfloor>q\<rfloor>) \<le> 53" using assms(3) by (rule bits_floor_le)
  define j where "j = 53 - bits (nat \<lfloor>q\<rfloor>)"
  have "of_int (n * 2 ^ j) \<le> q * 2 ^ j" using assms(2) by simp
  then have "n * 2 ^ j \<le> round_even (q * 2 ^ j)" by (rule round_even_ge_int)
  then have "(of_int (n * 2 ^ j) :: rat) \<le> of_int (round_even (q * 2 ^ j))"
    by (simp only: of_int_le_iff)
  then have "(of_int n :: rat) \<le> of_int (round_even (q * 2 ^ j)) / 2 ^ j"
    by (simp add: le_divide_eq)
  then show ?thesis using q0 k by (simp add: f64_def f64_pos_def Let_def j_def)
qed

lemma f64_trunc_ge: "of_int n \<le> q \<Longrightarrow> 0 \<le> n \<Longrightarrow> n \<le> f64_trunc q"
proof -
  assume "of_int n \<le> q" "0 \<le> n"
  then have "0 \<le> q" "n \<le> \<lfloor>q\<rfloor>" by (meson of_int_0_le_iff order_trans, simp add: le_floor_iff)
  then show ?thesis by (simp add: f64_trunc_def)
qed

end
