(* ===== verification/Json.thy ===== *)
theory Json
  imports GoStrings Float64 "HOL-Library.AList" "HOL-Library.List_Lexorder" "HOL-Library.Char_ord"
begin

text \<open>
  The part of \<open>encoding/json\<close> the bridge uses: the values an \<open>interface{}\<close> may hold, the
  string escapes of \<open>json.Marshal\<close>, flat objects, and what a value becomes when it is written by
  \<open>json.Marshal\<close> and read back into an \<open>interface{}\<close>. The text of a \<open>float64\<close> is a
  parameter (\<open>ff\<close>); nested maps, slices and other Go types stand in \<open>GOther\<close> with the name
  of their type, and are not marshalled.

  A \<open>map[string]interface{}\<close> is an association list with distinct keys, updated by
  \<open>AList.update\<close>; a nil map is the empty list.
\<close>

datatype gval =
    GStr string
  | GInt int
  | GInt32 int
  | GInt64 int
  | GFloat rat
  | GNumber string
  | GBool bool
  | GNil
  | GOther string

type_synonym gmap = "(string \<times> gval) list"

definition hex_lower :: "nat \<Rightarrow> char" where
  "hex_lower n = (if n < 10 then char_of (48 + n) else char_of (87 + n))"

text \<open>The bytes written for one decoded rune.\<close>

definition json_escape :: "nat \<times> string \<Rightarrow> string" where
  "json_escape p = (case p of (r, bs) \<Rightarrow>
     if r = 34 then [CHR 0x5C, CHR 0x22]
     else if r = 92 then [CHR 0x5C, CHR 0x5C]
     else if r = 8 then [CHR 0x5C, CHR ''b'']
     else if r = 12 then [CHR 0x5C, CHR ''f'']
     else if r = 10 then [CHR 0x5C, CHR ''n'']
     else if r = 13 then [CHR 0x5C, CHR ''r'']
     else if r = 9 then [CHR 0x5C, CHR ''t'']
     else if r < 32 \<or> r = 60 \<or> r = 62 \<or> r = 38
       then [CHR 0x5C, CHR ''u'', CHR ''0'', CHR ''0'', hex_lower (r div 16), hex_lower (r mod 16)]
     else if r = rune_error \<and> length bs = 1 then CHR 0x5C # ''ufffd''
     else if r = 0x2028 \<or> r = 0x2029 then CHR 0x5C # ''u202'' @ [hex_lower (r mod 16)]
     else bs)"

definition json_quote :: "string \<Rightarrow> string" where
  "json_quote s = [CHR 0x22] @ concat (map json_escape (segs s)) @ [CHR 0x22]"

text \<open>\<open>isValidNumber\<close>, what may follow the integer digits first.\<close>

definition skip_fraction :: "string \<Rightarrow> string" where
  "skip_fraction s = (case s of
     a # b # r \<Rightarrow> if a = CHR ''.'' \<and> is_digit b then dropWhile is_digit r else s
   | _ \<Rightarrow> s)"

definition skip_exponent :: "string \<Rightarrow> string option" where
  "skip_exponent s = (case s of
     a # b # r \<Rightarrow>
       if a = CHR ''e'' \<or> a = CHR ''E''
       then if b = CHR ''+'' \<or> b = CHR ''-''
            then if r = [] then None else Some (dropWhile is_digit r)
            else Some (dropWhile is_digit (b # r))
       else Some s
   | _ \<Rightarrow> Some s)"

definition json_number :: "string \<Rightarrow> bool" where
  "json_number s = (case (if s \<noteq> [] \<and> hd s = CHR ''-'' then tl s else s) of
     [] \<Rightarrow> False
   | c # r \<Rightarrow> is_digit c
       \<and> skip_exponent (skip_fraction (if c = CHR ''0'' then r else dropWhile is_digit r)) = Some [])"

definition number_text :: "string \<Rightarrow> string" where
  "number_text s = (if s = '''' then ''0'' else s)"

definition json_val :: "(rat \<Rightarrow> string) \<Rightarrow> gval \<Rightarrow> string option" where
  "json_val ff v = (case v of
     GStr s \<Rightarrow> Some (json_quote s)
   | GInt n \<Rightarrow> Some (itoa n)
   | GInt32 n \<Rightarrow> Some (itoa n)
   | GInt64 n \<Rightarrow> Some (itoa n)
   | GFloat q \<Rightarrow> Some (ff q)
   | GNumber s \<Rightarrow> if json_number (number_text s) then Some (number_text s) else None
   | GBool b \<Rightarrow> Some (if b then ''true'' else ''false'')
   | GNil \<Rightarrow> Some ''null''
   | GOther _ \<Rightarrow> None)"

fun json_fields :: "(rat \<Rightarrow> string) \<Rightarrow> gmap \<Rightarrow> string option" where
  "json_fields ff [] = Some ''''"
| "json_fields ff ((k, v) # kvs) = (case json_val ff v of
     None \<Rightarrow> None
   | Some t \<Rightarrow> (case json_fields ff kvs of
       None \<Rightarrow> None
     | Some r \<Rightarrow> Some (json_quote k @ '':'' @ t @ (if kvs = [] then '''' else '','' @ r))))"

text \<open>\<open>json.Marshal\<close> of a struct writes the fields in order, of a map sorted by key.\<close>

definition json_struct :: "(rat \<Rightarrow> string) \<Rightarrow> gmap \<Rightarrow> string option" where
  "json_struct ff kvs = map_option (\<lambda>t. ''{'' @ t @ ''}'') (json_fields ff kvs)"

definition json_map :: "(rat \<Rightarrow> string) \<Rightarrow> gmap \<Rightarrow> string option" where
  "json_map ff m = json_struct ff (sort_key fst m)"

section \<open>Reading back\<close>

text \<open>
  What \<open>json.Unmarshal\<close> into an \<open>interface{}\<close> yields for the text \<open>json.Marshal\<close> wrote for a value:
  every number is a \<open>float64\<close>, malformed bytes of a string have become replacement characters. The
  text of a \<open>float64\<close> reads back as itself; \<open>pf\<close> is \<open>ParseFloat\<close>, which fails out of range.
\<close>

definition json_text :: "string \<Rightarrow> string" where
  "json_text s = string_of_runes (runes s)"

definition json_image :: "(string \<Rightarrow> rat option) \<Rightarrow> gval \<Rightarrow> gval option" where
  "json_image pf v = (case v of
     GStr s \<Rightarrow> Some (GStr (json_text s))
   | GInt n \<Rightarrow> Some (GFloat (f64 (of_int n)))
   | GInt32 n \<Rightarrow> Some (GFloat (f64 (of_int n)))
   | GInt64 n \<Rightarrow> Some (GFloat (f64 (of_int n)))
   | GFloat q \<Rightarrow> Some (GFloat q)
   | GNumber s \<Rightarrow> map_option GFloat (pf (number_text s))
   | GBool b \<Rightarrow> Some (GBool b)
   | GNil \<Rightarrow> Some GNil
   | GOther _ \<Rightarrow> None)"

text \<open>The entries of an object in the order of the text: of two equal keys the later wins.\<close>

fun json_read :: "(string \<Rightarrow> rat option) \<Rightarrow> gmap \<Rightarrow> gmap option" where
  "json_read pf [] = Some []"
| "json_read pf ((k, v) # kvs) = (case json_image pf v of
     None \<Rightarrow> None
   | Some w \<Rightarrow> (case json_read pf kvs of
       None \<Rightarrow> None
     | Some m \<Rightarrow> Some (if map_of m (json_text k) = None then (json_text k, w) # m else m)))"

text \<open>\<open>dec\<close> is \<open>json.Unmarshal\<close> into a map, as far as the text of the map \<open>m\<close> goes.\<close>

definition reads_back :: "(rat \<Rightarrow> string) \<Rightarrow> (string \<Rightarrow> rat option) \<Rightarrow> (string \<Rightarrow> gmap option) \<Rightarrow> gmap \<Rightarrow> bool" where
  "reads_back ff pf dec m \<longleftrightarrow> (\<forall>t. json_map ff m = Some t \<longrightarrow> dec t = json_read pf (sort_key fst m))"

text \<open>The text is valid UTF-8: it decodes and encodes to itself.\<close>

definition valid_utf8 :: "string \<Rightarrow> bool" where
  "valid_utf8 s \<longleftrightarrow> json_text s = s"

section \<open>Facts\<close>

lemma json_image_simps [simp]:
  "valid_utf8 s \<Longrightarrow> json_image pf (GStr s) = Some (GStr s)"
  "\<bar>n\<bar> < 2 ^ 53 \<Longrightarrow> json_image pf (GInt n) = Some (GFloat (of_int n))"
  "\<bar>n\<bar> < 2 ^ 53 \<Longrightarrow> json_image pf (GInt64 n) = Some (GFloat (of_int n))"
  by (simp_all add: json_image_def valid_utf8_def f64_int)

lemma json_image_None:
  "json_image pf v = None \<longleftrightarrow> (\<exists>s. v = GNumber s \<and> pf (number_text s) = None) \<or> (\<exists>s. v = GOther s)"
  by (cases v) (auto simp: json_image_def)

lemma json_val_other [simp]: "json_val ff (GOther s) = None"
  by (simp add: json_val_def)

lemma json_val_text [simp]:
  "json_val ff (GStr s) = Some (json_quote s)" "json_val ff (GInt n) = Some (itoa n)"
  "json_val ff (GInt64 n) = Some (itoa n)"
  by (simp_all add: json_val_def)

lemma valid_utf8_ascii: "\<forall>c \<in> set s. byte c < 128 \<Longrightarrow> valid_utf8 s"
  by (simp add: valid_utf8_def json_text_def runes_all_ascii string_of_runes_def encode_rune_def comp_def map_idI
      cong: map_cong)

lemma json_fields_None: "json_fields ff m = None \<longleftrightarrow> (\<exists>kv \<in> set m. json_val ff (snd kv) = None)"
  by (induction ff m rule: json_fields.induct) (fastforce split: option.splits)+

lemma json_map_None: "json_map ff m = None \<longleftrightarrow> (\<exists>kv \<in> set m. json_val ff (snd kv) = None)"
  by (simp add: json_map_def json_struct_def json_fields_None)

lemma json_read_None: "json_read pf m = None \<longleftrightarrow> (\<exists>kv \<in> set m. json_image pf (snd kv) = None)"
  by (induction pf m rule: json_read.induct) (fastforce split: option.splits)+

lemma json_read_lookup:
  "json_read pf m = Some r \<Longrightarrow> distinct (map fst m) \<Longrightarrow> \<forall>k \<in> fst ` set m. valid_utf8 k \<Longrightarrow>
     map_of r k = Option.bind (map_of m k) (json_image pf)"
proof (induction pf m arbitrary: r k rule: json_read.induct)
  case (2 pf k' v kvs)
  obtain w r' where r: "json_image pf v = Some w" "json_read pf kvs = Some r'"
      "r = (if map_of r' (json_text k') = None then (json_text k', w) # r' else r')"
    using "2.prems"(1) by (auto split: option.splits)
  have k': "json_text k' = k'" "map_of kvs k' = None"
    using "2.prems"(2,3) by (auto simp: valid_utf8_def map_of_eq_None_iff)
  have IH: "map_of r' j = Option.bind (map_of kvs j) (json_image pf)" for j
    using "2.IH" [OF r(1,2)] "2.prems"(2,3) by simp
  show ?case using r(1) k' IH [of k'] IH [of k] unfolding r(3) by simp
qed simp

lemma map_of_sorted: "distinct (map fst m) \<Longrightarrow> map_of (sort_key fst m) = map_of m"
  by (rule map_of_inject_set [THEN iffD2]) (simp_all add: distinct_map)

end
