(* ===== verification/HassEvent.thy ===== *)
theory HassEvent
  imports Json
begin

text \<open>
  \<open>internal/hass/event.go\<close>: the in-memory event, its typed payloads and the flat JSON object.

  Lemmas: a payload survives the round trip through an event; the reserved keys of the JSON object
  cannot be shadowed by entries of \<open>Data\<close>; an event marshalled and unmarshalled has its device, type
  and timestamp, and the JSON image of its other entries, where integers have become \<open>float64\<close>.
\<close>

definition EventTypeButton :: string where "EventTypeButton = ''button''"
definition EventTypeSwitch :: string where "EventTypeSwitch = ''switch''"
definition EventTypeEncoder :: string where "EventTypeEncoder = ''encoder''"

lemmas event_types = EventTypeButton_def EventTypeSwitch_def EventTypeEncoder_def

record hass_event =
  he_id :: string
  he_device :: string
  he_type :: string
  he_timestamp :: int
  he_created_at :: gtime
  he_data :: gmap
  he_trace_id :: int64

definition zero_event :: hass_event where
  "zero_event = \<lparr>he_id = '''', he_device = '''', he_type = '''', he_timestamp = 0,
     he_created_at = 0, he_data = [], he_trace_id = 0\<rparr>"

record button_payload =
  bp_device :: string
  bp_type :: string
  bp_button :: string
  bp_action :: string
  bp_timestamp :: int

record switch_payload =
  sp_device :: string
  sp_type :: string
  sp_position :: string
  sp_timestamp :: int

record encoder_payload =
  ep_device :: string
  ep_type :: string
  ep_delta :: int
  ep_timestamp :: int

definition button_to_event :: "button_payload \<Rightarrow> hass_event" where
  "button_to_event p = zero_event\<lparr>he_device := bp_device p, he_type := EventTypeButton,
     he_timestamp := bp_timestamp p,
     he_data := [(''button'', GStr (bp_button p)), (''action'', GStr (bp_action p))]\<rparr>"

definition switch_to_event :: "switch_payload \<Rightarrow> hass_event" where
  "switch_to_event p = zero_event\<lparr>he_device := sp_device p, he_type := EventTypeSwitch,
     he_timestamp := sp_timestamp p, he_data := [(''position'', GStr (sp_position p))]\<rparr>"

definition encoder_to_event :: "encoder_payload \<Rightarrow> hass_event" where
  "encoder_to_event p = zero_event\<lparr>he_device := ep_device p, he_type := EventTypeEncoder,
     he_timestamp := ep_timestamp p, he_data := [(''delta'', GInt (ep_delta p))]\<rparr>"

definition new_button_event :: "gtime \<Rightarrow> string \<Rightarrow> string \<Rightarrow> string \<Rightarrow> int \<Rightarrow> hass_event" where
  "new_button_event now device button action ts =
     zero_event\<lparr>he_device := device, he_type := EventTypeButton, he_timestamp := ts,
       he_created_at := now, he_data := [(''button'', GStr button), (''action'', GStr action)]\<rparr>"

definition new_switch_event :: "gtime \<Rightarrow> string \<Rightarrow> string \<Rightarrow> int \<Rightarrow> hass_event" where
  "new_switch_event now device position ts =
     zero_event\<lparr>he_device := device, he_type := EventTypeSwitch, he_timestamp := ts,
       he_created_at := now, he_data := [(''position'', GStr position)]\<rparr>"

definition new_encoder_event :: "gtime \<Rightarrow> string \<Rightarrow> int \<Rightarrow> int \<Rightarrow> hass_event" where
  "new_encoder_event now device delta ts =
     zero_event\<lparr>he_device := device, he_type := EventTypeEncoder, he_timestamp := ts,
       he_created_at := now, he_data := [(''delta'', GInt delta)]\<rparr>"

text \<open>The flat map of \<open>MarshalJSON\<close>, also the default payload of \<open>ToPayload\<close>.\<close>

definition flat_map :: "hass_event \<Rightarrow> gmap" where
  "flat_map e = AList.update ''timestamp'' (GInt64 (he_timestamp e))
     (AList.update ''type'' (GStr (he_type e))
       (AList.update ''device'' (GStr (he_device e)) (he_data e)))"

definition marshal_event :: "(rat \<Rightarrow> string) \<Rightarrow> hass_event \<Rightarrow> string option" where
  "marshal_event ff e = json_map ff (flat_map e)"

text \<open>
  \<open>UnmarshalJSON\<close> on the decoded object; \<open>None\<close> is a text that is not a JSON object. The key
  \<open>timestamp\<close> is deleted whatever its type, the other two only when they hold strings.
\<close>

definition unmarshal_timestamp :: "(rat \<Rightarrow> int) \<Rightarrow> gval \<Rightarrow> int \<Rightarrow> int" where
  "unmarshal_timestamp ovf v old = (case v of
     GFloat q \<Rightarrow> f64_to_int64 ovf q
   | GInt64 n \<Rightarrow> n
   | GNumber s \<Rightarrow> (case parse_int s of Some n \<Rightarrow> n | None \<Rightarrow> old)
   | _ \<Rightarrow> old)"

definition unmarshal_event :: "(rat \<Rightarrow> int) \<Rightarrow> gmap option \<Rightarrow> hass_event \<Rightarrow> hass_event option" where
  "unmarshal_event ovf raw e = (case raw of
     None \<Rightarrow> None
   | Some m \<Rightarrow>
      (let (e1, m1) = (case map_of m ''device'' of
             Some (GStr v) \<Rightarrow> (e\<lparr>he_device := v\<rparr>, AList.delete ''device'' m) | _ \<Rightarrow> (e, m));
           (e2, m2) = (case map_of m1 ''type'' of
             Some (GStr v) \<Rightarrow> (e1\<lparr>he_type := v\<rparr>, AList.delete ''type'' m1) | _ \<Rightarrow> (e1, m1));
           (e3, m3) = (case map_of m2 ''timestamp'' of
             Some v \<Rightarrow> (e2\<lparr>he_timestamp := unmarshal_timestamp ovf v (he_timestamp e2)\<rparr>,
                         AList.delete ''timestamp'' m2)
           | None \<Rightarrow> (e2, m2))
       in Some (e3\<lparr>he_data := m3\<rparr>)))"

datatype payload_error = InvalidEventType string string | MissingField string | InvalidDelta
  | UnsupportedDelta

text \<open>\<open>s, _ := e.Data[k].(string)\<close>: the empty string when absent or of another type.\<close>

definition get_str :: "gmap \<Rightarrow> string \<Rightarrow> string" where
  "get_str m k = (case map_of m k of Some (GStr s) \<Rightarrow> s | _ \<Rightarrow> '''')"

definition to_button_payload :: "hass_event \<Rightarrow> payload_error + button_payload" where
  "to_button_payload e =
     (if he_type e \<noteq> EventTypeButton then Inl (InvalidEventType (he_type e) ''ButtonPayload'')
      else let btn = get_str (he_data e) ''button'' in
        if btn = '''' then Inl (MissingField ''button'')
        else let action = get_str (he_data e) ''action'' in
          if action = '''' then Inl (MissingField ''action'')
          else Inr \<lparr>bp_device = he_device e, bp_type = he_type e, bp_button = btn,
                    bp_action = action, bp_timestamp = he_timestamp e\<rparr>)"

definition to_switch_payload :: "hass_event \<Rightarrow> payload_error + switch_payload" where
  "to_switch_payload e =
     (if he_type e \<noteq> EventTypeSwitch then Inl (InvalidEventType (he_type e) ''SwitchPayload'')
      else let pos = get_str (he_data e) ''position'' in
        if pos = '''' then Inl (MissingField ''position'')
        else Inr \<lparr>sp_device = he_device e, sp_type = he_type e, sp_position = pos,
                  sp_timestamp = he_timestamp e\<rparr>)"

definition delta_of :: "(rat \<Rightarrow> int) \<Rightarrow> gval \<Rightarrow> payload_error + int" where
  "delta_of ovf v = (case v of
     GInt n \<Rightarrow> Inr n
   | GInt32 n \<Rightarrow> Inr n
   | GInt64 n \<Rightarrow> Inr n
   | GFloat q \<Rightarrow> Inr (f64_to_int64 ovf q)
   | GNumber s \<Rightarrow> (case parse_int s of Some n \<Rightarrow> Inr n | None \<Rightarrow> Inl InvalidDelta)
   | _ \<Rightarrow> Inl UnsupportedDelta)"

definition to_encoder_payload :: "(rat \<Rightarrow> int) \<Rightarrow> hass_event \<Rightarrow> payload_error + encoder_payload" where
  "to_encoder_payload ovf e =
     (if he_type e \<noteq> EventTypeEncoder then Inl (InvalidEventType (he_type e) ''EncoderPayload'')
      else (case map_of (he_data e) ''delta'' of
        None \<Rightarrow> Inl (MissingField ''delta'')
      | Some raw \<Rightarrow> (case delta_of ovf raw of
          Inl err \<Rightarrow> Inl err
        | Inr delta \<Rightarrow> Inr \<lparr>ep_device = he_device e, ep_type = he_type e, ep_delta = delta,
                            ep_timestamp = he_timestamp e\<rparr>)))"

datatype payload = PButton button_payload | PSwitch switch_payload | PEncoder encoder_payload
  | PMap gmap

definition to_payload :: "(rat \<Rightarrow> int) \<Rightarrow> hass_event \<Rightarrow> payload_error + payload" where
  "to_payload ovf e =
     (if he_type e = EventTypeButton then map_sum id PButton (to_button_payload e)
      else if he_type e = EventTypeSwitch then map_sum id PSwitch (to_switch_payload e)
      else if he_type e = EventTypeEncoder then map_sum id PEncoder (to_encoder_payload ovf e)
      else Inr (PMap (flat_map e)))"

section \<open>Facts\<close>

lemma map_of_flat_map: "map_of (flat_map e) = (map_of (he_data e))
    (''device'' \<mapsto> GStr (he_device e), ''type'' \<mapsto> GStr (he_type e), ''timestamp'' \<mapsto> GInt64 (he_timestamp e))"
  by (simp add: flat_map_def update_conv')

definition reserved_keys :: "string set" where
  "reserved_keys = {''device'', ''type'', ''timestamp''}"

lemma reserved_valid: "k \<in> reserved_keys \<Longrightarrow> valid_utf8 k"
  by (auto simp: reserved_keys_def intro!: valid_utf8_ascii)

lemma f64_to_int64_int [simp]: "in_int64 n \<Longrightarrow> f64_to_int64 ovf (of_int n) = n"
  by (simp add: f64_to_int64_def)

lemma small_in_int64: "\<bar>n\<bar> < 2 ^ 53 \<Longrightarrow> in_int64 n"
  by (auto simp: go_arith)

text \<open>What unmarshalling a map that has the three reserved keys gives.\<close>

lemma unmarshal_event_reserved:
  assumes "map_of m ''device'' = Some (GStr d)" "map_of m ''type'' = Some (GStr ty)"
    "map_of m ''timestamp'' = Some (GFloat (of_int n))" "in_int64 n"
  shows "\<exists>r. unmarshal_event ovf (Some m) e = Some r \<and> he_device r = d \<and> he_type r = ty
     \<and> he_timestamp r = n \<and> map_of (he_data r) = (map_of m)(''device'' := None, ''type'' := None, ''timestamp'' := None)"
  using assms by (simp add: unmarshal_event_def Let_def delete_conv' unmarshal_timestamp_def fun_upd_twist)

lemma unmarshal_event_total: "\<exists>r. unmarshal_event ovf (Some m) e = Some r"
  by (simp add: unmarshal_event_def Let_def case_prod_beta)

lemma event_image_lookup:
  assumes "valid_utf8 (he_device e)" "valid_utf8 (he_type e)" "\<bar>he_timestamp e\<bar> < 2 ^ 53"
    and "distinct (map fst (he_data e))" "\<forall>k \<in> fst ` set (he_data e). valid_utf8 k"
    and "json_read pf (sort_key fst (flat_map e)) = Some m"
  shows "map_of m ''device'' = Some (GStr (he_device e))" "map_of m ''type'' = Some (GStr (he_type e))"
    "map_of m ''timestamp'' = Some (GFloat (of_int (he_timestamp e)))"
    "k \<notin> reserved_keys \<Longrightarrow> map_of m k = Option.bind (map_of (he_data e) k) (json_image pf)"
proof -
  have d: "distinct (map fst (flat_map e))" using assms(4) by (simp add: flat_map_def distinct_update)
  have "fst ` set (flat_map e) = fst ` set (he_data e) \<union> reserved_keys"
    using arg_cong [OF map_of_flat_map [of e], of dom]
    by (auto simp: dom_map_of_conv_image_fst reserved_keys_def)
  then have v: "\<forall>k \<in> fst ` set (sort_key fst (flat_map e)). valid_utf8 k"
    using assms(5) reserved_valid by auto
  have "distinct (map fst (sort_key fst (flat_map e)))" using d by (simp add: distinct_map)
  from json_read_lookup [OF assms(6) this v] assms(1-3)
  show "map_of m ''device'' = Some (GStr (he_device e))" "map_of m ''type'' = Some (GStr (he_type e))"
    "map_of m ''timestamp'' = Some (GFloat (of_int (he_timestamp e)))"
    "k \<notin> reserved_keys \<Longrightarrow> map_of m k = Option.bind (map_of (he_data e) k) (json_image pf)"
    by (simp_all add: map_of_sorted [OF d] map_of_flat_map reserved_keys_def)
qed

text \<open>An entry that is not reserved is in the flat map as it is in \<open>Data\<close>; the reserved ones are plain.\<close>

lemma flat_map_entry:
  assumes "(k, v) \<in> set (flat_map e)" "distinct (map fst (he_data e))"
  shows "(k \<notin> reserved_keys \<and> map_of (he_data e) k = Some v)
    \<or> v = GStr (he_device e) \<or> v = GStr (he_type e) \<or> v = GInt64 (he_timestamp e)"
proof -
  have "distinct (map fst (flat_map e))" using assms(2) by (simp add: flat_map_def distinct_update)
  then have "map_of (flat_map e) k = Some v" using assms(1) by simp
  then show ?thesis by (auto simp: map_of_flat_map reserved_keys_def split: if_splits)
qed

section \<open>Properties\<close>

text \<open>
  C17: an event survives \<open>MarshalJSON\<close> and \<open>UnmarshalJSON\<close>. Marshalling fails exactly on an entry of
  \<open>Data\<close> that \<open>encoding/json\<close> cannot write, reading back only on a \<open>json.Number\<close> out of the range
  of \<open>float64\<close>. Otherwise device, type and timestamp come back, and so does the image of every other
  entry of \<open>Data\<close>; entries of \<open>Data\<close> named like a reserved key neither survive nor change the
  reserved fields. Strings are valid UTF-8 and the timestamp fits in the 53 bits of a JSON number.
\<close>

theorem event_json_roundtrip:
  assumes "valid_utf8 (he_device e)" "valid_utf8 (he_type e)" "\<bar>he_timestamp e\<bar> < 2 ^ 53"
    and "distinct (map fst (he_data e))" "\<forall>k \<in> fst ` set (he_data e). valid_utf8 k"
    and "reads_back ff pf dec (flat_map e)"
  shows "case marshal_event ff e of
       None \<Rightarrow> (\<exists>k v. k \<notin> reserved_keys \<and> map_of (he_data e) k = Some v \<and> json_val ff v = None)
     | Some t \<Rightarrow> (case unmarshal_event ovf (dec t) e0 of
         None \<Rightarrow> (\<exists>k s. k \<notin> reserved_keys \<and> map_of (he_data e) k = Some (GNumber s) \<and> pf (number_text s) = None)
       | Some r \<Rightarrow> he_device r = he_device e \<and> he_type r = he_type e \<and> he_timestamp r = he_timestamp e
           \<and> (\<forall>k. map_of (he_data r) k = (if k \<in> reserved_keys then None
                else Option.bind (map_of (he_data e) k) (json_image pf))))"
proof (cases "marshal_event ff e")
  case None
  then obtain kv where kv: "kv \<in> set (flat_map e)" "json_val ff (snd kv) = None"
    by (auto simp: marshal_event_def json_map_None)
  then have "(fst kv, snd kv) \<in> set (flat_map e)" by simp
  from flat_map_entry [OF this assms(4)] kv(2) None show ?thesis by auto
next
  case (Some t)
  then have plain: "\<forall>kv \<in> set (flat_map e). json_val ff (snd kv) \<noteq> None"
    using json_map_None [of ff "flat_map e"] by (auto simp: marshal_event_def)
  have dec: "dec t = json_read pf (sort_key fst (flat_map e))"
    using Some assms(6) by (simp add: marshal_event_def reads_back_def)
  show ?thesis
  proof (cases "json_read pf (sort_key fst (flat_map e))")
    case None
    then obtain kv where kv: "kv \<in> set (flat_map e)" "json_image pf (snd kv) = None"
      by (auto simp: json_read_None)
    then obtain s where s: "snd kv = GNumber s" "pf (number_text s) = None"
      using plain by (auto simp: json_image_None)
    have "(fst kv, GNumber s) \<in> set (flat_map e)" using kv(1) s(1) by (metis prod.collapse)
    from flat_map_entry [OF this assms(4)] s(2) Some None dec show ?thesis
      by (auto simp: unmarshal_event_def)
  next
    case m: (Some m)
    note l = event_image_lookup [OF assms(1-5) m]
    obtain r where r: "unmarshal_event ovf (Some m) e0 = Some r"
      "he_device r = he_device e" "he_type r = he_type e" "he_timestamp r = he_timestamp e"
      "map_of (he_data r) = (map_of m) (''device'' := None, ''type'' := None, ''timestamp'' := None)"
      using unmarshal_event_reserved [OF l(1-3) small_in_int64 [OF assms(3)]] by blast
    then show ?thesis using l(4) Some m dec by (auto simp: reserved_keys_def)
  qed
qed

text \<open>
  C37: an encoder event sent as JSON and read back converts to the typed payload it was built from:
  the delta, an integer that became a \<open>float64\<close>, is recovered exactly below \<open>2 ^ 53\<close>.
\<close>

theorem encoder_payload_survives_json:
  assumes "valid_utf8 dev" "\<bar>ts\<bar> < 2 ^ 53" "\<bar>delta\<bar> < 2 ^ 53"
    and "reads_back ff pf dec (flat_map (new_encoder_event now dev delta ts))"
  shows "\<exists>t r. marshal_event ff (new_encoder_event now dev delta ts) = Some t
    \<and> unmarshal_event ovf (dec t) e0 = Some r
    \<and> to_payload ovf r = Inr (PEncoder
         \<lparr>ep_device = dev, ep_type = EventTypeEncoder, ep_delta = delta, ep_timestamp = ts\<rparr>)"
proof -
  let ?e = "new_encoder_event now dev delta ts"
  have v: "valid_utf8 (he_device ?e)" "valid_utf8 (he_type ?e)" "\<bar>he_timestamp ?e\<bar> < 2 ^ 53"
      "distinct (map fst (he_data ?e))" "\<forall>k \<in> fst ` set (he_data ?e). valid_utf8 k"
    using assms by (auto simp: new_encoder_event_def event_types intro!: valid_utf8_ascii)
  have plain: "(k, w) \<in> set (flat_map ?e) \<Longrightarrow> json_val ff w \<noteq> None \<and> json_image pf w \<noteq> None" for k w
    using flat_map_entry [of k w ?e] v(4) assms(3)
    by (auto simp: new_encoder_event_def json_image_def split: if_splits)
  obtain t where t: "marshal_event ff ?e = Some t"
    using plain json_map_None [of ff "flat_map ?e"] by (fastforce simp: marshal_event_def)
  obtain m where m: "json_read pf (sort_key fst (flat_map ?e)) = Some m"
    using plain json_read_None [of pf "sort_key fst (flat_map ?e)"] by fastforce
  note l = event_image_lookup [OF v m]
  obtain r where r: "unmarshal_event ovf (Some m) e0 = Some r"
    "he_device r = dev" "he_type r = EventTypeEncoder" "he_timestamp r = ts"
    "map_of (he_data r) ''delta'' = Some (GFloat (of_int delta))"
    using unmarshal_event_reserved [OF l(1-3) small_in_int64 [OF v(3)], of ovf e0] l(4) [of "''delta''"] assms(3)
    by (auto simp: new_encoder_event_def reserved_keys_def)
  have "dec t = Some m" using assms(4) t m by (simp add: marshal_event_def reads_back_def)
  moreover have "to_payload ovf r = Inr (PEncoder
      \<lparr>ep_device = dev, ep_type = EventTypeEncoder, ep_delta = delta, ep_timestamp = ts\<rparr>)"
    using r assms(3) small_in_int64 by (simp add: to_payload_def to_encoder_payload_def event_types delta_of_def)
  ultimately show ?thesis using t r(1) by auto
qed

section \<open>Concrete events\<close>

definition demo_dec :: "hass_event \<Rightarrow> string \<Rightarrow> gmap option" where
  "demo_dec e t = json_read (\<lambda>_. None) (sort_key fst (flat_map e))"

lemma demo_reads_back: "reads_back ff (\<lambda>_. None) (demo_dec e) (flat_map e)"
  by (simp add: reads_back_def demo_dec_def)

lemma event_json_roundtrip_witness:
  "\<exists>t r. marshal_event (\<lambda>_. []) (new_switch_event 7 ''desk'' ''busy'' 1726180001) = Some t
     \<and> unmarshal_event (\<lambda>_. 0) (demo_dec (new_switch_event 7 ''desk'' ''busy'' 1726180001) t) zero_event = Some r
     \<and> he_device r = ''desk'' \<and> he_timestamp r = 1726180001"
proof -
  let ?e = "new_switch_event 7 ''desk'' ''busy'' 1726180001"
  have v: "valid_utf8 (he_device ?e)" "valid_utf8 (he_type ?e)" "\<bar>he_timestamp ?e\<bar> < 2 ^ 53"
      "distinct (map fst (he_data ?e))" "\<forall>k \<in> fst ` set (he_data ?e). valid_utf8 k"
    by (auto simp: new_switch_event_def event_types intro!: valid_utf8_ascii)
  from event_json_roundtrip [OF v demo_reads_back, where ff = "\<lambda>_. []" and ovf = "\<lambda>_. 0" and ?e0.0 = zero_event]
  show ?thesis
    by (auto simp: new_switch_event_def split: option.splits if_splits)
qed

lemma encoder_payload_survives_json_witness:
  "\<exists>t r. marshal_event (\<lambda>_. []) (new_encoder_event 7 ''desk'' (- 3) 1726180002) = Some t
     \<and> unmarshal_event (\<lambda>_. 0) (demo_dec (new_encoder_event 7 ''desk'' (- 3) 1726180002) t) zero_event = Some r
     \<and> to_payload (\<lambda>_. 0) r = Inr (PEncoder \<lparr>ep_device = ''desk'', ep_type = ''encoder'',
          ep_delta = - 3, ep_timestamp = 1726180002\<rparr>)"
proof -
  have "valid_utf8 ''desk''" by (rule valid_utf8_ascii) simp
  from encoder_payload_survives_json [OF this, of 1726180002 "- 3" "\<lambda>_. []" "\<lambda>_. None" _ 7 "\<lambda>_. 0" zero_event]
    demo_reads_back
  show ?thesis by (simp add: event_types)
qed

end
