(* ===== verification/Channels.thy ===== *)
theory Channels
  imports Prelude
begin

text \<open>
  Go's buffered channels, as far as the bridge uses them: a non-blocking send (a \<open>select\<close> with
  a \<open>default\<close>), a non-blocking receive, and \<open>close\<close>. A send on a closed channel and a second
  \<open>close\<close> panic.

  The locale \<open>bounded_queue\<close> is the contract the senders rely on: the frames channel of the
  Busy Bar client, the output channel of the decoder and the event queue of the Home Assistant
  client all offer items without blocking and count what is refused.
\<close>

record 'a chan =
  ch_buf :: "'a list"
  ch_cap :: nat
  ch_closed :: bool

definition make_chan :: "nat \<Rightarrow> 'a chan" where
  "make_chan n = \<lparr>ch_buf = [], ch_cap = n, ch_closed = False\<rparr>"

datatype 'a send_result = Sent "'a chan" | WouldBlock | SendPanic

text \<open>\<open>select { case c <- x: ... default: ... }\<close>.\<close>

definition try_send :: "'a \<Rightarrow> 'a chan \<Rightarrow> 'a send_result" where
  "try_send x c =
     (if ch_closed c then SendPanic
      else if length (ch_buf c) < ch_cap c then Sent (c\<lparr>ch_buf := ch_buf c @ [x]\<rparr>)
      else WouldBlock)"

datatype 'a recv_result = Received 'a "'a chan" | RecvClosed | RecvBlock

text \<open>
  \<open>x, ok := <-c\<close>: buffered items are delivered before the channel reports that it is closed.
\<close>

definition try_recv :: "'a chan \<Rightarrow> 'a recv_result" where
  "try_recv c = (case ch_buf c of
     x # xs \<Rightarrow> Received x (c\<lparr>ch_buf := xs\<rparr>)
   | [] \<Rightarrow> if ch_closed c then RecvClosed else RecvBlock)"

text \<open>\<open>close(c)\<close>; \<open>None\<close> is the panic of closing twice.\<close>

definition close_chan :: "'a chan \<Rightarrow> 'a chan option" where
  "close_chan c = (if ch_closed c then None else Some (c\<lparr>ch_closed := True\<rparr>))"

definition chan_wf :: "'a chan \<Rightarrow> bool" where
  "chan_wf c \<longleftrightarrow> length (ch_buf c) \<le> ch_cap c"

definition chan_open :: "'a chan \<Rightarrow> bool" where
  "chan_open c \<longleftrightarrow> chan_wf c \<and> \<not> ch_closed c"

definition chan_push :: "'a \<Rightarrow> 'a chan \<Rightarrow> 'a chan option" where
  "chan_push x c = (case try_send x c of Sent c' \<Rightarrow> Some c' | _ \<Rightarrow> None)"

definition chan_room :: "'a chan \<Rightarrow> nat" where
  "chan_room c = ch_cap c - length (ch_buf c)"

text \<open>Offer a list of items one by one; the refused ones come back in order.\<close>

fun offer_all :: "('a \<Rightarrow> 'q \<Rightarrow> 'q option) \<Rightarrow> 'a list \<Rightarrow> 'q \<Rightarrow> 'q \<times> 'a list" where
  "offer_all push [] q = (q, [])"
| "offer_all push (x # xs) q = (case push x q of
     Some q' \<Rightarrow> offer_all push xs q'
   | None \<Rightarrow> (case offer_all push xs q of (q', ref) \<Rightarrow> (q', x # ref)))"

section \<open>Facts on channels\<close>

lemma try_send_Sent:
  "try_send x c = Sent c' \<longleftrightarrow>
     \<not> ch_closed c \<and> length (ch_buf c) < ch_cap c \<and> c' = c\<lparr>ch_buf := ch_buf c @ [x]\<rparr>"
  by (auto simp: try_send_def)

lemma try_send_panic: "try_send x c = SendPanic \<longleftrightarrow> ch_closed c"
  by (auto simp: try_send_def)

lemma try_recv_Received:
  "try_recv c = Received x c' \<longleftrightarrow> (\<exists>xs. ch_buf c = x # xs \<and> c' = c\<lparr>ch_buf := xs\<rparr>)"
  by (auto simp: try_recv_def split: list.splits)

lemma make_chan_open [simp]: "chan_open (make_chan n)"
  by (simp add: make_chan_def chan_open_def chan_wf_def)

lemma make_chan_simps [simp]:
  "ch_buf (make_chan n) = []" "ch_cap (make_chan n) = n" "ch_closed (make_chan n) = False"
  by (simp_all add: make_chan_def)

section \<open>The contract of a bounded queue\<close>

locale bounded_queue =
  fixes push :: "'a \<Rightarrow> 'q \<Rightarrow> 'q option"
    and items :: "'q \<Rightarrow> 'a list"
    and room :: "'q \<Rightarrow> nat"
    and ok :: "'q \<Rightarrow> bool"
  assumes push_full: "ok q \<Longrightarrow> room q = 0 \<Longrightarrow> push x q = None"
    and push_accepts: "ok q \<Longrightarrow> room q \<noteq> 0 \<Longrightarrow> \<exists>q'. push x q = Some q'"
    and push_items: "ok q \<Longrightarrow> push x q = Some q' \<Longrightarrow> items q' = items q @ [x]"
    and push_room: "ok q \<Longrightarrow> push x q = Some q' \<Longrightarrow> room q = Suc (room q')"
    and push_keeps: "ok q \<Longrightarrow> push x q = Some q' \<Longrightarrow> ok q'"
begin

text \<open>With nobody receiving, exactly the first \<open>room\<close> items are accepted, in order.\<close>

lemma offer_all_result:
  "ok q \<Longrightarrow> offer_all push xs q = (q', ref) \<Longrightarrow>
     ok q' \<and> items q' = items q @ take (room q) xs \<and> ref = drop (room q) xs
       \<and> room q' = room q - length xs"
proof (induction xs arbitrary: q q' ref)
  case (Cons x xs)
  show ?case
  proof (cases "push x q")
    case None
    then have r: "room q = 0" using push_accepts [OF Cons.prems(1), of x] by (cases "room q = 0") auto
    obtain q1 ref1 where o: "offer_all push xs q = (q1, ref1)" by fastforce
    show ?thesis using Cons.IH [OF Cons.prems(1) o] Cons.prems(2) None o r by auto
  next
    case (Some q1)
    then have "offer_all push xs q1 = (q', ref)" using Cons.prems(2) by simp
    from Cons.IH [OF push_keeps [OF Cons.prems(1) Some] this]
    show ?thesis using push_items [OF Cons.prems(1) Some] push_room [OF Cons.prems(1) Some] by auto
  qed
qed simp

lemma offer_all_count:
  assumes "ok q" "offer_all push xs q = (q', ref)"
  shows "length (items q') + length ref = length (items q) + length xs"
  using offer_all_result [OF assms] by simp

end

interpretation chanq: bounded_queue chan_push ch_buf chan_room chan_open
  by unfold_locales
    (auto simp: chan_push_def chan_room_def chan_open_def chan_wf_def try_send_def
      split: if_splits send_result.splits)

end
