(* ===== verification/HassClient.thy ===== *)
theory HassClient
  imports HassConfig HassEvent Channels Telemetry
begin

text \<open>
  \<open>internal/hass/client.go\<close>: the bounded event queue and the dispatcher that posts events to
  Home Assistant. \<open>Enqueue\<close>, \<open>Start\<close> and the critical section of \<open>Close\<close> run under the
  client's lock and are functions; \<open>None\<close> is the panic of a send on, or a second close of, a
  closed channel. The telemetry store is the second component of the state, absent when nil.

  \<open>dispatch\<close> is a function of its environment: the clock at each reading, whether the \<open>select\<close>
  of a backoff saw the cancellation, and what each HTTP request gave (a transport error or a status
  code). It yields the log of its waits and posts and the way it ended, which determines the
  telemetry call. Worker, callers, \<open>Close\<close> and the cancellation of the parent context interleave
  in \<open>hass_step\<close>.
\<close>

section \<open>Queue and lifecycle\<close>

record hass_client =
  hk_cfg :: hass_config
  hk_events :: "hass_event chan"
  hk_cancel :: "bool option"
  hk_started :: bool
  hk_closed :: bool
  hk_overflow_drops :: int64

definition new_hass_client :: "uri_parser \<Rightarrow> hass_config \<Rightarrow> hass_config_error + hass_client" where
  "new_hass_client uri cfg = (case hass_validate uri cfg of
     Some err \<Rightarrow> Inl err
   | None \<Rightarrow> Inr \<lparr>hk_cfg = cfg, hk_events = make_chan (nat (hc_buffer_size cfg)), hk_cancel = None,
       hk_started = False, hk_closed = False, hk_overflow_drops = 0\<rparr>)"

datatype hass_error = ErrAlreadyStarted | ErrAlreadyClosed

text \<open>\<open>hk_cancel\<close>: no cancel function, or one and whether it was called.\<close>

definition hass_start :: "hass_client \<Rightarrow> hass_error + hass_client" where
  "hass_start c =
     (if hk_started c then Inl ErrAlreadyStarted
      else if hk_closed c then Inl ErrAlreadyClosed
      else Inr (c\<lparr>hk_started := True, hk_cancel := Some False\<rparr>))"

definition stamp_created :: "gtime \<Rightarrow> hass_event \<Rightarrow> hass_event" where
  "stamp_created now e = (if he_created_at e = 0 then e\<lparr>he_created_at := now\<rparr> else e)"

definition refuse_event :: "hass_client \<Rightarrow> tstore option \<Rightarrow> hass_client \<times> tstore option" where
  "refuse_event c st = (c\<lparr>hk_overflow_drops := hk_overflow_drops c + 1\<rparr>,
     map_option (record_drop [''buffer_overflow'']) st)"

definition hass_enqueue ::
  "gtime \<Rightarrow> hass_event \<Rightarrow> hass_client \<times> tstore option \<Rightarrow> (bool \<times> hass_client \<times> tstore option) option" where
  "hass_enqueue now e s = (case s of (c, st) \<Rightarrow>
     (let e' = stamp_created now e in
      if hk_closed c then Some (False, refuse_event c st)
      else (case try_send e' (hk_events c) of
        Sent ch \<Rightarrow> Some (True, c\<lparr>hk_events := ch\<rparr>, st)
      | WouldBlock \<Rightarrow> Some (False, refuse_event c st)
      | SendPanic \<Rightarrow> None)))"

text \<open>\<open>Close\<close>, up to the wait for the worker.\<close>

definition hass_close :: "hass_client \<Rightarrow> hass_client option" where
  "hass_close c =
     (if hk_closed c then Some c
      else let c' = c\<lparr>hk_closed := True, hk_cancel := map_option (\<lambda>_. True) (hk_cancel c)\<rparr>
        in map_option (\<lambda>ch. c'\<lparr>hk_events := ch\<rparr>) (close_chan (hk_events c')))"

section \<open>Dispatch\<close>

definition safe_error :: "string \<Rightarrow> string \<Rightarrow> string" where
  "safe_error token msg =
     (if token \<noteq> '''' \<and> str_contains msg token then replace_all msg token ''[REDACTED]'' else msg)"

record attempt_env =
  ae_check :: gtime
  ae_cancelled :: bool
  ae_after :: gtime
  ae_new_request :: "string option"
  ae_response :: "string + int"
  ae_done :: gtime

record dispatch_env =
  de_now :: gtime
  de_since :: gtime
  de_marshal :: "string option"
  de_start :: gtime
  de_attempts :: "nat \<Rightarrow> attempt_env"

datatype dispatch_act = Wait duration | Post

datatype dispatch_end = DropTTL | Cancelled | MarshalFailed string | Delivered duration
  | Permanent duration string | Exhausted duration "string option"

text \<open>The block guarded by \<open>attempt > 0\<close>; no end means the attempt goes on.\<close>

definition retry_gate ::
  "hass_config \<Rightarrow> gtime \<Rightarrow> nat \<Rightarrow> attempt_env \<Rightarrow> dispatch_act list \<times> dispatch_end option" where
  "retry_gate cfg created attempt ae =
     (let remaining = wrap64 (hc_ttl cfg - time_sub (ae_check ae) created) in
      if remaining \<le> 0 then ([], Some DropTTL)
      else let backoff = wrap64 (hc_retry_backoff cfg * int attempt);
               wait = (if backoff > remaining then remaining else backoff)
        in if ae_cancelled ae then ([Wait wait], Some Cancelled)
           else if time_sub (ae_after ae) created > hc_ttl cfg then ([Wait wait], Some DropTTL)
           else ([Wait wait], None))"

definition permanent_msg :: "(int \<Rightarrow> string) \<Rightarrow> int \<Rightarrow> string" where
  "permanent_msg status_text code = ''permanent error: HTTP '' @ itoa code @ '' '' @ status_text code"

definition transient_msg :: "(int \<Rightarrow> string) \<Rightarrow> int \<Rightarrow> string" where
  "transient_msg status_text code = ''transient server error: HTTP '' @ itoa code @ '' '' @ status_text code"

function dispatch_loop ::
  "hass_config \<Rightarrow> (int \<Rightarrow> string) \<Rightarrow> gtime \<Rightarrow> gtime \<Rightarrow> (nat \<Rightarrow> attempt_env) \<Rightarrow> nat
   \<Rightarrow> string option \<Rightarrow> duration \<Rightarrow> dispatch_act list \<times> dispatch_end" where
  "dispatch_loop cfg stext created start env attempt last_err latency =
     (if int attempt > hc_max_retries cfg
      then ([], Exhausted latency (map_option (safe_error (hc_token cfg)) last_err))
      else let ae = env attempt in
       (case (if attempt > 0 then retry_gate cfg created attempt ae else ([], None)) of
          (acts, Some e) \<Rightarrow> (acts, e)
        | (acts, None) \<Rightarrow>
           (case ae_new_request ae of
              Some err \<Rightarrow> (acts, Exhausted latency
                (Some (safe_error (hc_token cfg) (safe_error (hc_token cfg) err))))
            | None \<Rightarrow>
               (let lat = time_sub (ae_done ae) start in
                (case ae_response ae of
                   Inl err \<Rightarrow> (case dispatch_loop cfg stext created start env (Suc attempt)
                        (Some (safe_error (hc_token cfg) err)) lat of (rest, e) \<Rightarrow> (acts @ Post # rest, e))
                 | Inr code \<Rightarrow>
                     if 200 \<le> code \<and> code < 300 then (acts @ [Post], Delivered lat)
                     else if 400 \<le> code \<and> code < 500
                     then (acts @ [Post], Permanent lat (safe_error (hc_token cfg) (permanent_msg stext code)))
                     else (case dispatch_loop cfg stext created start env (Suc attempt)
                        (Some (transient_msg stext code)) lat of (rest, e) \<Rightarrow> (acts @ Post # rest, e)))))))"
  by pat_completeness auto
termination
  by (relation "measure (\<lambda>(cfg, _, _, _, _, attempt, _, _). nat (hc_max_retries cfg + 1 - int attempt))") auto

declare dispatch_loop.simps [simp del]

definition created_at :: "gtime \<Rightarrow> hass_event \<Rightarrow> gtime" where
  "created_at now e =
     (if he_created_at e = 0
      then (if he_timestamp e > 0 then time_unix (he_timestamp e) else now) else he_created_at e)"

definition dispatch_trace_id :: "hass_event \<Rightarrow> int64" where
  "dispatch_trace_id e =
     (if he_trace_id e = 0 \<and> he_id e \<noteq> ''''
      then (case parse_int (he_id e) of Some n \<Rightarrow> word_of_int n | None \<Rightarrow> 0) else he_trace_id e)"

definition post_url :: "hass_config \<Rightarrow> hass_event \<Rightarrow> string" where
  "post_url cfg e = trim_right (CHR ''/'') (hc_base_url cfg) @ ''/api/events/'' @
     (if hc_event_type cfg = '''' then he_type e else hc_event_type cfg)"

definition dispatch_outcome ::
  "hass_config \<Rightarrow> (int \<Rightarrow> string) \<Rightarrow> dispatch_env \<Rightarrow> hass_event \<Rightarrow> dispatch_act list \<times> dispatch_end" where
  "dispatch_outcome cfg stext env e =
     (let created = created_at (de_now env) e in
      if time_sub (de_since env) created > hc_ttl cfg then ([], DropTTL)
      else (case de_marshal env of
        Some err \<Rightarrow> ([], MarshalFailed err)
      | None \<Rightarrow> dispatch_loop cfg stext created (de_start env) (de_attempts env) 0 None 0))"

definition report :: "int64 \<Rightarrow> dispatch_end \<Rightarrow> tstore \<Rightarrow> tstore" where
  "report i e st = (case e of
     DropTTL \<Rightarrow> record_drop [''ttl_expired''] st
   | Cancelled \<Rightarrow> st
   | MarshalFailed err \<Rightarrow> record_forward_outcome i OutcomeFailure 0 (Some err) st
   | Delivered lat \<Rightarrow> record_forward_outcome i OutcomeSuccess lat None st
   | Permanent lat err \<Rightarrow> record_forward_outcome i OutcomeFailure lat (Some err) st
   | Exhausted lat err \<Rightarrow> record_forward_outcome i OutcomeFailure lat err st)"

definition dispatch ::
  "hass_config \<Rightarrow> (int \<Rightarrow> string) \<Rightarrow> dispatch_env \<Rightarrow> hass_event \<Rightarrow> tstore option
   \<Rightarrow> dispatch_act list \<times> tstore option" where
  "dispatch cfg stext env e st = (case dispatch_outcome cfg stext env e of
     (acts, d) \<Rightarrow> (acts, map_option (report (dispatch_trace_id e) d) st))"

section \<open>Worker and callers\<close>

datatype worker = NotStarted | Running | Stopped

record hass_sys =
  hs_client :: hass_client
  hs_store :: "tstore option"
  hs_parent_done :: bool
  hs_worker :: worker
  hs_accepted :: "hass_event list"
  hs_taken :: "hass_event list"
  hs_refused :: nat
  hs_panicked :: bool

definition ctx_done :: "hass_sys \<Rightarrow> bool" where
  "ctx_done s \<longleftrightarrow> hs_parent_done s \<or> hk_cancel (hs_client s) = Some True"

inductive hass_step :: "(int \<Rightarrow> string) \<Rightarrow> hass_sys \<Rightarrow> hass_sys \<Rightarrow> bool" for stext where
  enqueue_ok: "hass_enqueue now e (hs_client s, hs_store s) = Some (True, c, st) \<Longrightarrow>
     hass_step stext s (s\<lparr>hs_client := c, hs_store := st,
       hs_accepted := hs_accepted s @ [stamp_created now e]\<rparr>)"
| enqueue_refused: "hass_enqueue now e (hs_client s, hs_store s) = Some (False, c, st) \<Longrightarrow>
     hass_step stext s (s\<lparr>hs_client := c, hs_store := st, hs_refused := Suc (hs_refused s)\<rparr>)"
| enqueue_panic: "hass_enqueue now e (hs_client s, hs_store s) = None \<Longrightarrow>
     hass_step stext s (s\<lparr>hs_panicked := True\<rparr>)"
| start: "hass_start (hs_client s) = Inr c \<Longrightarrow>
     hass_step stext s (s\<lparr>hs_client := c, hs_worker := Running\<rparr>)"
| close: "hass_close (hs_client s) = Some c \<Longrightarrow> hass_step stext s (s\<lparr>hs_client := c\<rparr>)"
| close_panic: "hass_close (hs_client s) = None \<Longrightarrow> hass_step stext s (s\<lparr>hs_panicked := True\<rparr>)"
| parent_cancel: "hass_step stext s (s\<lparr>hs_parent_done := True\<rparr>)"
| worker_done: "hs_worker s = Running \<Longrightarrow> ctx_done s \<Longrightarrow> hass_step stext s (s\<lparr>hs_worker := Stopped\<rparr>)"
| worker_closed: "hs_worker s = Running \<Longrightarrow> try_recv (hk_events (hs_client s)) = RecvClosed \<Longrightarrow>
     hass_step stext s (s\<lparr>hs_worker := Stopped\<rparr>)"
| worker_event: "hs_worker s = Running \<Longrightarrow> try_recv (hk_events (hs_client s)) = Received e ch \<Longrightarrow>
     dispatch (hk_cfg (hs_client s)) stext env e (hs_store s) = (acts, st) \<Longrightarrow>
     hass_step stext s (s\<lparr>hs_client := (hs_client s)\<lparr>hk_events := ch\<rparr>, hs_store := st,
       hs_taken := hs_taken s @ [e]\<rparr>)"

definition hass_init :: "hass_client \<Rightarrow> tstore option \<Rightarrow> hass_sys" where
  "hass_init c st = \<lparr>hs_client = c, hs_store = st, hs_parent_done = False, hs_worker = NotStarted,
     hs_accepted = [], hs_taken = [], hs_refused = 0, hs_panicked = False\<rparr>"

inductive hass_reach :: "(int \<Rightarrow> string) \<Rightarrow> uri_parser \<Rightarrow> hass_config \<Rightarrow> hass_sys \<Rightarrow> bool"
  for stext uri cfg where
  init: "new_hass_client uri cfg = Inr c \<Longrightarrow> hass_reach stext uri cfg (hass_init c st)"
| step: "hass_reach stext uri cfg s \<Longrightarrow> hass_step stext s t \<Longrightarrow> hass_reach stext uri cfg t"

section \<open>The client keeps its channel and its flags in step\<close>

definition client_ok :: "hass_client \<Rightarrow> bool" where
  "client_ok c \<longleftrightarrow> ch_closed (hk_events c) = hk_closed c \<and> chan_wf (hk_events c)
     \<and> ch_cap (hk_events c) = nat (hc_buffer_size (hk_cfg c))
     \<and> (hk_cancel c = None \<longleftrightarrow> \<not> hk_started c)
     \<and> (hk_closed c \<and> hk_started c \<longrightarrow> hk_cancel c = Some True)"

lemma new_hass_client_ok:
  "new_hass_client uri cfg = Inr c \<Longrightarrow> client_ok c \<and> hk_cfg c = cfg \<and> \<not> hk_started c \<and> ch_buf (hk_events c) = []
     \<and> hk_overflow_drops c = 0"
  by (auto simp: new_hass_client_def client_ok_def chan_wf_def split: option.splits)

lemma hass_start_ok [go_keeps]: "client_ok c \<Longrightarrow> hass_start c = Inr c' \<Longrightarrow> client_ok c'"
  by (auto simp: hass_start_def client_ok_def split: if_splits)

lemma hass_start_frame:
  "hass_start c = Inr c' \<Longrightarrow> hk_cfg c' = hk_cfg c \<and> hk_events c' = hk_events c
     \<and> hk_overflow_drops c' = hk_overflow_drops c \<and> hk_started c' \<and> \<not> hk_started c \<and> \<not> hk_closed c"
  by (auto simp: hass_start_def split: if_splits)

lemma hass_close_answers: "client_ok c \<Longrightarrow> hass_close c \<noteq> None"
  by (simp add: hass_close_def close_chan_def client_ok_def Let_def)

lemma hass_close_ok [go_keeps]:
  "client_ok c \<Longrightarrow> hass_close c = Some c' \<Longrightarrow> client_ok c' \<and> hk_closed c'"
  by (auto simp: hass_close_def close_chan_def client_ok_def chan_wf_def Let_def split: if_splits)

lemma hass_close_frame:
  "hass_close c = Some c' \<Longrightarrow> hk_cfg c' = hk_cfg c \<and> ch_buf (hk_events c') = ch_buf (hk_events c)
     \<and> hk_overflow_drops c' = hk_overflow_drops c \<and> hk_started c' = hk_started c"
  by (auto simp: hass_close_def close_chan_def Let_def split: if_splits)

lemma hass_enqueue_answers: "client_ok c \<Longrightarrow> hass_enqueue t e (c, st) \<noteq> None"
  by (auto simp: hass_enqueue_def client_ok_def try_send_def Let_def)

lemma hass_enqueue_cases:
  assumes "hass_enqueue t e (c, st) = Some (b, c', st')"
  shows "if b then \<not> hk_closed c \<and> length (ch_buf (hk_events c)) < ch_cap (hk_events c) \<and> st' = st
            \<and> c' = c\<lparr>hk_events := (hk_events c)\<lparr>ch_buf := ch_buf (hk_events c) @ [stamp_created t e]\<rparr>\<rparr>
         else c' = c\<lparr>hk_overflow_drops := hk_overflow_drops c + 1\<rparr>
            \<and> st' = map_option (record_drop [''buffer_overflow'']) st"
  using assms
  by (auto simp: hass_enqueue_def refuse_event_def try_send_Sent Let_def split: if_splits send_result.splits)

lemma hass_enqueue_ok [go_keeps]:
  "client_ok c \<Longrightarrow> hass_enqueue t e (c, st) = Some (b, c', st') \<Longrightarrow> client_ok c'"
  by (drule hass_enqueue_cases) (auto simp: client_ok_def chan_wf_def split: if_splits)

lemma hass_enqueue_frame:
  "hass_enqueue t e (c, st) = Some (b, c', st') \<Longrightarrow> hk_cfg c' = hk_cfg c \<and> hk_started c' = hk_started c
     \<and> hk_closed c' = hk_closed c \<and> hk_cancel c' = hk_cancel c"
  by (drule hass_enqueue_cases) (auto split: if_splits)

interpretation hassq: dispatcher hass_enqueue stamp_created "\<lambda>d. ch_buf (hk_events (fst d))"
  "\<lambda>d. hk_overflow_drops (fst d)" "\<lambda>d. client_ok (fst d)"
proof
  show "hass_enqueue t e d \<noteq> None" if "client_ok (fst d)" for t e d
    using hass_enqueue_answers [of "fst d" t e "snd d"] that by simp
  show "ch_buf (hk_events (fst d')) = ch_buf (hk_events (fst d)) @ [stamp_created t e]
      \<and> hk_overflow_drops (fst d') = hk_overflow_drops (fst d)"
    if "client_ok (fst d)" "hass_enqueue t e d = Some (True, d')" for t e d d'
    using that by (cases d; cases d'; auto dest!: hass_enqueue_cases)
  show "ch_buf (hk_events (fst d')) = ch_buf (hk_events (fst d))
      \<and> hk_overflow_drops (fst d') = hk_overflow_drops (fst d) + 1"
    if "client_ok (fst d)" "hass_enqueue t e d = Some (False, d')" for t e d d'
    using that by (cases d; cases d'; auto dest!: hass_enqueue_cases)
  show "client_ok (fst d')" if "client_ok (fst d)" "hass_enqueue t e d = Some (b, d')" for t e d b d'
    using that hass_enqueue_ok by (cases d; cases d'; auto)
qed

section \<open>Reachable states\<close>

definition hass_inv :: "hass_config \<Rightarrow> hass_sys \<Rightarrow> bool" where
  "hass_inv cfg s \<longleftrightarrow> client_ok (hs_client s) \<and> hk_cfg (hs_client s) = cfg \<and> \<not> hs_panicked s
     \<and> hs_accepted s = hs_taken s @ ch_buf (hk_events (hs_client s))
     \<and> hk_overflow_drops (hs_client s) = of_nat (hs_refused s)
     \<and> (hs_worker s = NotStarted \<longleftrightarrow> \<not> hk_started (hs_client s))"

lemma hass_inv_init: "new_hass_client uri cfg = Inr c \<Longrightarrow> hass_inv cfg (hass_init c st)"
  by (drule new_hass_client_ok) (simp add: hass_inv_def hass_init_def)

lemma client_ok_recv:
  "client_ok c \<Longrightarrow> try_recv (hk_events c) = Received e ch \<Longrightarrow> client_ok (c\<lparr>hk_events := ch\<rparr>)"
  by (auto simp: client_ok_def try_recv_Received chan_wf_def)

lemma hass_step_inv:
  assumes "hass_step stext s t" "hass_inv cfg s"
  shows "hass_inv cfg t"
  using assms
proof (induction rule: hass_step.induct)
  case (enqueue_ok now e s c st)
  from hass_enqueue_cases [OF enqueue_ok(1)] hass_enqueue_frame [OF enqueue_ok(1)] hass_enqueue_ok [OF _ enqueue_ok(1)] enqueue_ok(2)
  show ?case by (simp add: hass_inv_def)
next
  case (enqueue_refused now e s c st)
  from hass_enqueue_cases [OF enqueue_refused(1)] hass_enqueue_frame [OF enqueue_refused(1)]
    hass_enqueue_ok [OF _ enqueue_refused(1)] enqueue_refused(2)
  show ?case by (simp add: hass_inv_def)
next
  case (enqueue_panic now e s)
  then show ?case by (metis hass_inv_def hass_enqueue_answers)
next
  case (start s c)
  from hass_start_ok [OF _ start(1)] hass_start_frame [OF start(1)] start(2)
  show ?case by (simp add: hass_inv_def)
next
  case (close s c)
  from hass_close_ok [OF _ close(1)] hass_close_frame [OF close(1)] close(2)
  show ?case by (simp add: hass_inv_def)
next
  case (close_panic s)
  then show ?case by (metis hass_inv_def hass_close_answers)
next
  case (parent_cancel s)
  then show ?case by (simp add: hass_inv_def)
next
  case (worker_done s)
  then show ?case by (simp add: hass_inv_def)
next
  case (worker_closed s)
  then show ?case by (simp add: hass_inv_def)
next
  case (worker_event s e ch acts st)
  have "client_ok ((hs_client s)\<lparr>hk_events := ch\<rparr>)"
    using worker_event by (intro client_ok_recv) (auto simp: hass_inv_def)
  with worker_event show ?case by (auto simp: hass_inv_def try_recv_Received)
qed

lemma hass_reach_inv: "hass_reach stext uri cfg s \<Longrightarrow> hass_inv cfg s"
  by (induction rule: hass_reach.induct) (auto intro: hass_inv_init hass_step_inv)

lemma hass_reach_valid: "hass_reach stext uri cfg s \<Longrightarrow> hass_validate uri cfg = None"
  by (induction rule: hass_reach.induct) (auto simp: new_hass_client_def split: option.splits)

section \<open>The retry policy\<close>

text \<open>The specification reads the environment attempt by attempt and never runs the loop.\<close>

definition posts :: "dispatch_act list \<Rightarrow> nat" where
  "posts acts = length (filter (\<lambda>x. x = Post) acts)"

definition succeeded :: "int \<Rightarrow> bool" where "succeeded code \<longleftrightarrow> 200 \<le> code \<and> code < 300"
definition rejected :: "int \<Rightarrow> bool" where "rejected code \<longleftrightarrow> 400 \<le> code \<and> code < 500"

definition transient :: "attempt_env \<Rightarrow> bool" where
  "transient ae \<longleftrightarrow> ae_new_request ae = None
     \<and> (case ae_response ae of Inl _ \<Rightarrow> True | Inr code \<Rightarrow> \<not> succeeded code \<and> \<not> rejected code)"

text \<open>Attempt \<open>i\<close> may post: it is the first, or the event is fresh before and after its backoff.\<close>

definition may_post :: "hass_config \<Rightarrow> gtime \<Rightarrow> (nat \<Rightarrow> attempt_env) \<Rightarrow> nat \<Rightarrow> bool" where
  "may_post cfg created env i \<longleftrightarrow> i = 0 \<or>
     (0 < wrap64 (hc_ttl cfg - time_sub (ae_check (env i)) created) \<and> \<not> ae_cancelled (env i)
      \<and> time_sub (ae_after (env i)) created \<le> hc_ttl cfg)"

definition stopped_stale :: "hass_config \<Rightarrow> gtime \<Rightarrow> (nat \<Rightarrow> attempt_env) \<Rightarrow> nat \<Rightarrow> bool" where
  "stopped_stale cfg created env i \<longleftrightarrow>
     wrap64 (hc_ttl cfg - time_sub (ae_check (env i)) created) \<le> 0
     \<or> (\<not> ae_cancelled (env i) \<and> hc_ttl cfg < time_sub (ae_after (env i)) created)"

text \<open>The error an attempt that did not end the loop leaves for the next, and the one of a request not built.\<close>

definition attempt_error :: "hass_config \<Rightarrow> (int \<Rightarrow> string) \<Rightarrow> attempt_env \<Rightarrow> string" where
  "attempt_error cfg stext ae = (case ae_new_request ae of
     Some err \<Rightarrow> safe_error (hc_token cfg) err
   | None \<Rightarrow> (case ae_response ae of
       Inl err \<Rightarrow> safe_error (hc_token cfg) err
     | Inr code \<Rightarrow> transient_msg stext code))"

text \<open>
  Why attempt \<open>k\<close> was the last, what it reports, and how many requests the attempts from \<open>a\<close> on
  sent; \<open>le0\<close> and \<open>lat0\<close> are the error and the latency from before attempt \<open>a\<close>.
\<close>

fun stops_at :: "hass_config \<Rightarrow> (int \<Rightarrow> string) \<Rightarrow> gtime \<Rightarrow> gtime \<Rightarrow> (nat \<Rightarrow> attempt_env)
    \<Rightarrow> nat \<Rightarrow> string option \<Rightarrow> duration \<Rightarrow> nat \<Rightarrow> dispatch_end \<Rightarrow> nat \<Rightarrow> bool" where
  "stops_at cfg stext created start env a le0 lat0 k (Delivered lat) n \<longleftrightarrow>
     n = Suc k - a \<and> int k \<le> hc_max_retries cfg \<and> may_post cfg created env k
     \<and> ae_new_request (env k) = None
     \<and> (\<exists>code. ae_response (env k) = Inr code \<and> succeeded code) \<and> lat = time_sub (ae_done (env k)) start"
| "stops_at cfg stext created start env a le0 lat0 k (Permanent lat msg) n \<longleftrightarrow>
     n = Suc k - a \<and> int k \<le> hc_max_retries cfg \<and> may_post cfg created env k
     \<and> ae_new_request (env k) = None
     \<and> (\<exists>code. ae_response (env k) = Inr code \<and> rejected code
           \<and> msg = safe_error (hc_token cfg) (permanent_msg stext code))
     \<and> lat = time_sub (ae_done (env k)) start"
| "stops_at cfg stext created start env a le0 lat0 k (Exhausted lat err) n \<longleftrightarrow>
     n = k - a \<and> (if int k \<le> hc_max_retries cfg then may_post cfg created env k \<and> ae_new_request (env k) \<noteq> None
       else k = a \<or> int k = hc_max_retries cfg + 1)
     \<and> lat = (if k = a then lat0 else time_sub (ae_done (env (k - 1))) start)
     \<and> err = map_option (safe_error (hc_token cfg))
         (if int k \<le> hc_max_retries cfg then Some (attempt_error cfg stext (env k))
          else if k = a then le0 else Some (attempt_error cfg stext (env (k - 1))))"
| "stops_at cfg stext created start env a le0 lat0 k DropTTL n \<longleftrightarrow>
     n = k - a \<and> 0 < k \<and> int k \<le> hc_max_retries cfg \<and> stopped_stale cfg created env k"
| "stops_at cfg stext created start env a le0 lat0 k Cancelled n \<longleftrightarrow>
     n = k - a \<and> 0 < k \<and> int k \<le> hc_max_retries cfg \<and> ae_cancelled (env k)"
| "stops_at cfg stext created start env a le0 lat0 k (MarshalFailed _) n \<longleftrightarrow> False"

definition loop_spec :: "hass_config \<Rightarrow> (int \<Rightarrow> string) \<Rightarrow> gtime \<Rightarrow> gtime \<Rightarrow> (nat \<Rightarrow> attempt_env)
    \<Rightarrow> nat \<Rightarrow> string option \<Rightarrow> duration \<Rightarrow> dispatch_act list \<Rightarrow> dispatch_end \<Rightarrow> bool" where
  "loop_spec cfg stext created start env a le0 lat0 acts e \<longleftrightarrow>
     (\<exists>k\<ge>a. (\<forall>i. a \<le> i \<and> i < k \<longrightarrow> transient (env i) \<and> may_post cfg created env i)
        \<and> stops_at cfg stext created start env a le0 lat0 k e (posts acts))"

lemma posts_simps [simp]:
  "posts [] = 0" "posts (Post # acts) = Suc (posts acts)" "posts (Wait d # acts) = posts acts"
  "posts (xs @ ys) = posts xs + posts ys"
  by (simp_all add: posts_def)

lemma retry_gate_spec:
  assumes "retry_gate cfg created i (env i) = (acts, r)" "0 < i"
  shows "posts acts = 0 \<and> (case r of None \<Rightarrow> may_post cfg created env i
     | Some e \<Rightarrow> e = DropTTL \<and> stopped_stale cfg created env i \<or> e = Cancelled \<and> ae_cancelled (env i))"
  using assms by (auto simp: retry_gate_def may_post_def stopped_stale_def Let_def split: if_splits)

lemma loop_spec_Suc:
  assumes "loop_spec cfg stext created start env (Suc a) (Some (attempt_error cfg stext (env a)))
      (time_sub (ae_done (env a)) start) rest e"
    and "transient (env a)" "may_post cfg created env a" "int a \<le> hc_max_retries cfg" "posts acts = Suc (posts rest)"
  shows "loop_spec cfg stext created start env a le0 lat0 acts e"
proof -
  obtain k where k: "Suc a \<le> k"
      "\<forall>i. Suc a \<le> i \<and> i < k \<longrightarrow> transient (env i) \<and> may_post cfg created env i"
      "stops_at cfg stext created start env (Suc a) (Some (attempt_error cfg stext (env a)))
        (time_sub (ae_done (env a)) start) k e (posts rest)"
    using assms(1) unfolding loop_spec_def by blast
  have "\<forall>i. a \<le> i \<and> i < k \<longrightarrow> transient (env i) \<and> may_post cfg created env i"
    using k(2) assms(2,3) by (metis le_less Suc_leI)
  moreover have "stops_at cfg stext created start env a le0 lat0 k e (posts acts)"
    using k(1,3) assms(4,5) by (cases e) (auto split: if_splits)
  ultimately show ?thesis using k(1) unfolding loop_spec_def by (intro exI [of _ k]) simp
qed

lemma loop_spec_here:
  assumes "stops_at cfg stext created start env a le0 lat0 a e (posts acts)"
  shows "loop_spec cfg stext created start env a le0 lat0 acts e"
  unfolding loop_spec_def using assms by (intro exI [of _ a]) auto

lemma dispatch_loop_meets_spec:
  "dispatch_loop cfg stext created start env a le lat = (acts, e) \<Longrightarrow>
     loop_spec cfg stext created start env a le lat acts e"
proof (induction cfg stext created start env a le lat arbitrary: acts e rule: dispatch_loop.induct)
  case (1 cfg stext created start env a le lat)
  show ?case
  proof (cases "int a > hc_max_retries cfg")
    case True
    with "1.prems" show ?thesis by (intro loop_spec_here) (auto simp: dispatch_loop.simps)
  next
    case False
    obtain g r where gate: "(if a > 0 then retry_gate cfg created a (env a) else ([], None)) = (g, r)" by fastforce
    have gs: "posts g = 0" "case r of None \<Rightarrow> may_post cfg created env a
       | Some e \<Rightarrow> 0 < a \<and> (e = DropTTL \<and> stopped_stale cfg created env a \<or> e = Cancelled \<and> ae_cancelled (env a))"
      using gate retry_gate_spec [of cfg created a env] by (auto simp: may_post_def split: if_splits option.splits)
    note loop = "1.prems" [unfolded dispatch_loop.simps [of cfg _ _ _ _ a] Let_def gate, simplified False if_False prod.case,
        folded succeeded_def rejected_def]
    show ?thesis
    proof (cases r)
      case (Some e')
      with loop gs False show ?thesis by (intro loop_spec_here) auto
    next
      case None
      note mp = gs(2) [unfolded None option.case]
      show ?thesis
      proof (cases "ae_new_request (env a)")
        case (Some err)
        with loop None gs mp False show ?thesis by (intro loop_spec_here) (auto simp: attempt_error_def)
      next
        case nr: None
        note IH = "1.IH" [OF False refl gate [symmetric] None nr refl]
        show ?thesis
        proof (cases "ae_response (env a)")
          case (Inl err)
          obtain rest e' where r: "dispatch_loop cfg stext created start env (Suc a)
              (Some (safe_error (hc_token cfg) err)) (time_sub (ae_done (env a)) start) = (rest, e')" by fastforce
          with loop None nr Inl have "acts = g @ Post # rest" "e = e'" by auto
          with IH(1) [OF Inl r] show ?thesis using mp gs(1) False nr Inl
            by (rule_tac loop_spec_Suc) (auto simp: transient_def attempt_error_def)
        next
          case (Inr code)
          consider "succeeded code" | "rejected code" "\<not> succeeded code" | "\<not> succeeded code" "\<not> rejected code" by blast
          then show ?thesis
          proof cases
            case 3
            obtain rest e' where r: "dispatch_loop cfg stext created start env (Suc a)
                (Some (transient_msg stext code)) (time_sub (ae_done (env a)) start) = (rest, e')" by fastforce
            have eq: "acts = g @ Post # rest" "e = e'" using loop None nr Inr 3 r by simp_all
            with IH(2) [OF Inr 3 [unfolded succeeded_def rejected_def] r] show ?thesis using mp gs(1) False nr Inr 3
              by (rule_tac loop_spec_Suc) (auto simp: transient_def attempt_error_def)
          qed (use loop None nr Inr mp gs False in
            \<open>auto intro!: loop_spec_here\<close>)
        qed
      qed
    qed
  qed
qed

text \<open>The policy of a whole dispatch: its log and its end.\<close>

definition retry_policy :: "hass_config \<Rightarrow> (int \<Rightarrow> string) \<Rightarrow> dispatch_env \<Rightarrow> hass_event \<Rightarrow> dispatch_act list
    \<Rightarrow> dispatch_end \<Rightarrow> bool" where
  "retry_policy cfg stext env e acts d \<longleftrightarrow>
     (if hc_ttl cfg < time_sub (de_since env) (created_at (de_now env) e) then acts = [] \<and> d = DropTTL
      else (case de_marshal env of
        Some err \<Rightarrow> acts = [] \<and> d = MarshalFailed err
      | None \<Rightarrow> loop_spec cfg stext (created_at (de_now env) e) (de_start env) (de_attempts env) 0 None 0 acts d))"

text \<open>
  C2: a dispatch follows the retry policy and records what came of it. A stale event is dropped and
  one that cannot be encoded fails, both without a request. Otherwise some attempt \<open>k\<close> is the last:
  all before it were sent while the event was fresh and ended in a transport error or a status that
  is neither 2xx nor 4xx; \<open>k\<close> itself gave the 2xx or the 4xx, or found the event stale or the context
  cancelled, or could not build its request, or is past \<open>MaxRetries\<close>; and exactly the sent attempts
  are in the log. The store records that end: a drop, a success or a failure, with the latency of the
  last answer and, when the attempts are exhausted, the error of the last attempt, redacted.
\<close>

theorem dispatch_retry_policy:
  "\<exists>acts d. retry_policy cfg stext env e acts d
     \<and> dispatch cfg stext env e None = (acts, None)
     \<and> dispatch cfg stext env e (Some st) = (acts, Some (case d of
         DropTTL \<Rightarrow> record_drop [''ttl_expired''] st
       | Cancelled \<Rightarrow> st
       | MarshalFailed err \<Rightarrow> record_forward_outcome (dispatch_trace_id e) OutcomeFailure 0 (Some err) st
       | Delivered lat \<Rightarrow> record_forward_outcome (dispatch_trace_id e) OutcomeSuccess lat None st
       | Permanent lat err \<Rightarrow> record_forward_outcome (dispatch_trace_id e) OutcomeFailure lat (Some err) st
       | Exhausted lat err \<Rightarrow> record_forward_outcome (dispatch_trace_id e) OutcomeFailure lat err st))"
proof -
  obtain acts d where o: "dispatch_outcome cfg stext env e = (acts, d)" by fastforce
  then have "retry_policy cfg stext env e acts d"
    by (auto simp: retry_policy_def dispatch_outcome_def Let_def dispatch_loop_meets_spec split: option.splits)
  then show ?thesis using o by (intro exI [of _ acts] exI [of _ d]) (simp add: dispatch_def report_def)
qed

section \<open>Bounds on the work of one dispatch\<close>

lemma stops_at_posts:
  "stops_at cfg stext created start env a le0 lat0 k e n \<Longrightarrow> a \<le> k \<Longrightarrow> int a \<le> hc_max_retries cfg
     \<Longrightarrow> int n \<le> hc_max_retries cfg + 1 - int a"
  by (cases e) (auto split: if_splits)

definition waits_within :: "duration \<Rightarrow> dispatch_act list \<Rightarrow> bool" where
  "waits_within limit acts \<longleftrightarrow> (\<forall>d. Wait d \<in> set acts \<longrightarrow> 0 < d \<and> d \<le> limit)"

definition clock_after :: "gtime \<Rightarrow> (nat \<Rightarrow> attempt_env) \<Rightarrow> bool" where
  "clock_after created env \<longleftrightarrow> (\<forall>i. created \<le> ae_check (env i))"

lemma waits_within_simps [simp]:
  "waits_within l []" "waits_within l (Post # acts) = waits_within l acts"
  "waits_within l (xs @ ys) \<longleftrightarrow> waits_within l xs \<and> waits_within l ys"
  by (auto simp: waits_within_def)

lemma retry_gate_waits:
  assumes "retry_gate cfg created i (env i) = (acts, r)" "0 < i" "int i \<le> hc_max_retries cfg"
    and "clock_after created env" "0 < hc_ttl cfg" "in_int64 (hc_ttl cfg)" "0 < hc_retry_backoff cfg"
    and "in_int64 (hc_retry_backoff cfg * hc_max_retries cfg)"
  shows "waits_within (hc_ttl cfg) acts"
proof -
  let ?b = "hc_retry_backoff cfg * int i"
  have "1 * 1 \<le> ?b" using assms(2,7) by (intro mult_mono) auto
  moreover have "?b \<le> hc_retry_backoff cfg * hc_max_retries cfg" using assms(3,7) by (intro mult_left_mono) auto
  ultimately have b: "wrap64 ?b = ?b" "0 < ?b" using assms(8) by (auto simp: go_arith wrap64_between)
  have c: "created \<le> ae_check (env i)" using assms(4) by (simp add: clock_after_def)
  then have "0 \<le> time_sub (ae_check (env i)) created"
    using time_sub_range [of "ae_check (env i)" created] by (auto simp: time_sub_def go_arith)
  moreover have "time_sub (ae_check (env i)) created \<le> max_int64" by (simp add: time_sub_def go_arith)
  ultimately have "wrap64 (hc_ttl cfg - time_sub (ae_check (env i)) created)
      = hc_ttl cfg - time_sub (ae_check (env i)) created"
    and "hc_ttl cfg - time_sub (ae_check (env i)) created \<le> hc_ttl cfg"
    using assms(5,6) by (auto simp: go_arith wrap64_between)
  with assms(1) b show ?thesis
    by (auto simp: retry_gate_def waits_within_def Let_def split: if_splits)
qed

lemma dispatch_loop_waits:
  assumes "clock_after created env" "0 < hc_ttl cfg" "in_int64 (hc_ttl cfg)" "0 < hc_retry_backoff cfg"
    and "in_int64 (hc_retry_backoff cfg * hc_max_retries cfg)"
  shows "waits_within (hc_ttl cfg) (fst (dispatch_loop cfg stext created start env a le lat))"
  using assms
proof (induction cfg stext created start env a le lat rule: dispatch_loop.induct)
  case (1 cfg stext created start env a le lat)
  show ?case
  proof (cases "int a > hc_max_retries cfg")
    case True
    then show ?thesis by (simp add: dispatch_loop.simps)
  next
    case False
    obtain g r where gate: "(if a > 0 then retry_gate cfg created a (env a) else ([], None)) = (g, r)" by fastforce
    have gw: "waits_within (hc_ttl cfg) g"
      using gate False retry_gate_waits [of cfg created a env g r] "1.prems" by (auto split: if_splits)
    show ?thesis
    proof (cases r)
      case (Some e')
      with gate False gw show ?thesis by (subst dispatch_loop.simps) (simp add: Let_def)
    next
      case None
      show ?thesis
      proof (cases "ae_new_request (env a)")
        case (Some err)
        with gate False None gw show ?thesis by (subst dispatch_loop.simps) (simp add: Let_def)
      next
        case nr: None
        note IH = "1.IH" [OF False refl gate [symmetric] None nr refl]
        show ?thesis
        proof (cases "ae_response (env a)")
          case (Inl err)
          with gate False None nr gw IH(1) [OF Inl "1.prems"] show ?thesis
            by (subst dispatch_loop.simps) (simp add: Let_def case_prod_beta)
        next
          case (Inr code)
          with gate False None nr gw IH(2) [OF Inr _ _ "1.prems"] show ?thesis
            by (subst dispatch_loop.simps) (simp add: Let_def case_prod_beta)
        qed
      qed
    qed
  qed
qed

text \<open>
  C27: one dispatch is bounded. With a validated configuration whose largest backoff fits
  \<open>int64\<close>, and a clock that does not run behind the event's creation, it sends at most
  \<open>MaxRetries + 1\<close> requests, and every wait is positive and at most the TTL.
\<close>

theorem dispatch_bounded:
  assumes "hass_validate uri cfg = None" "in_int64 (hc_ttl cfg)"
    and "in_int64 (hc_retry_backoff cfg * hc_max_retries cfg)"
    and "clock_after (created_at (de_now env) e) (de_attempts env)"
    and "dispatch_outcome cfg stext env e = (acts, d)"
  shows "int (posts acts) \<le> hc_max_retries cfg + 1 \<and> waits_within (hc_ttl cfg) acts"
proof -
  have pos: "0 < hc_ttl cfg" "0 < hc_retry_backoff cfg" "0 < hc_max_retries cfg"
    using assms(1) by (simp_all add: hass_validate_None)
  have "acts = [] \<or> (\<exists>s. dispatch_loop cfg stext (created_at (de_now env) e) s (de_attempts env) 0 None 0 = (acts, d))"
    using assms(5) by (auto simp: dispatch_outcome_def Let_def split: if_splits option.splits)
  then show ?thesis
  proof
    assume "\<exists>s. dispatch_loop cfg stext (created_at (de_now env) e) s (de_attempts env) 0 None 0 = (acts, d)"
    then obtain s where l: "dispatch_loop cfg stext (created_at (de_now env) e) s (de_attempts env) 0 None 0 = (acts, d)" ..
    have "int (posts acts) \<le> hc_max_retries cfg + 1"
      using dispatch_loop_meets_spec [OF l] pos(3) stops_at_posts [where a = 0] unfolding loop_spec_def by fastforce
    moreover have "waits_within (hc_ttl cfg) acts"
      using dispatch_loop_waits [OF assms(4) pos(1) assms(2) pos(2) assms(3), of stext s 0 None 0] l by simp
    ultimately show ?thesis ..
  qed (use pos in simp)
qed

definition demo_config :: hass_config where
  "demo_config = hass_default_config\<lparr>hc_token := ''secret''\<rparr>"

definition demo_uri :: uri_parser where
  "demo_uri s = Inr (''http'', ''homeassistant.local:8123'')"

definition demo_event :: hass_event where
  "demo_event = \<lparr>he_id = ''1'', he_device = ''bar'', he_type = ''button'', he_timestamp = 0,
     he_created_at = 5, he_data = [], he_trace_id = 1\<rparr>"

text \<open>A server that answers 503 to the first request and 200 to the second.\<close>

definition demo_env :: dispatch_env where
  "demo_env = \<lparr>de_now = 10, de_since = 10, de_marshal = None, de_start = 10,
     de_attempts = (\<lambda>i. \<lparr>ae_check = 20, ae_cancelled = False, ae_after = 30, ae_new_request = None,
        ae_response = Inr (if i = 0 then 503 else 200), ae_done = 40\<rparr>)\<rparr>"

lemmas demo_defs = demo_config_def demo_uri_def demo_event_def demo_env_def hass_default_config_def

lemma demo_valid: "hass_validate demo_uri demo_config = None"
  by (simp add: hass_validate_None demo_defs check_http_url_None not_blank_Cons is_space_def go_arith)

lemma demo_dispatch:
  "dispatch_outcome demo_config stext demo_env demo_event
     = ([Post, Wait 100000000, Post], Delivered 30)"
  by (simp add: dispatch_outcome_def demo_defs created_at_def dispatch_loop.simps retry_gate_def
    time_sub_def go_arith wrap64_def Let_def)

lemma dispatch_bounded_witness:
  "int (posts [Post, Wait 100000000, Post]) \<le> hc_max_retries demo_config + 1
     \<and> waits_within (hc_ttl demo_config) [Post, Wait 100000000, Post]"
  by (rule dispatch_bounded [OF demo_valid _ _ _ demo_dispatch])
    (simp_all add: demo_defs clock_after_def created_at_def go_arith)

section \<open>What a dispatch tells the telemetry store\<close>

lemma report_dispatched:
  "ft_total_dispatched (ts_forwarding (report i d st)) + ts_drop_count (report i d st)
     = ft_total_dispatched (ts_forwarding st) + ts_drop_count st + (if d = Cancelled then 0 else 1)"
  by (cases d) (simp_all add: report_def record_drop_def record_forward_outcome_def count_outcome_def Let_def)

lemma report_acked:
  "ft_total_acked (ts_forwarding (report i d st))
     = ft_total_acked (ts_forwarding st) + (if \<exists>lat. d = Delivered lat then 1 else 0)"
  by (cases d) (simp_all add: report_def record_drop_def record_forward_outcome_def count_outcome_def
    OutcomeSuccess_def OutcomeFailure_def Let_def)

text \<open>
  C15: a dispatch that ends by itself is counted exactly once, as dispatched or as dropped; one whose
  context is cancelled during a backoff is counted nowhere. It is acknowledged exactly when it was
  delivered; a stale event sends nothing; and no trace is added to or lost from the ring buffer.
\<close>

theorem dispatch_counted_once:
  assumes "dispatch cfg stext env e (Some st) = (acts, Some st')"
    and "dispatch_outcome cfg stext env e = (acts', d)"
  shows "acts = acts'
    \<and> ft_total_dispatched (ts_forwarding st') + drop_count st'
        = ft_total_dispatched (ts_forwarding st) + drop_count st + (if d = Cancelled then 0 else 1)
    \<and> ft_total_acked (ts_forwarding st') = ft_total_acked (ts_forwarding st) + (if \<exists>lat. d = Delivered lat then 1 else 0)
    \<and> map trace_key (ts_ring_buffer st') = map trace_key (ts_ring_buffer st)
    \<and> (hc_ttl cfg < time_sub (de_since env) (created_at (de_now env) e) \<longrightarrow> acts = [] \<and> drop_count st' = drop_count st + 1)"
proof -
  have st': "st' = report (dispatch_trace_id e) d st" and a: "acts = acts'"
    using assms by (simp_all add: dispatch_def)
  moreover have "map trace_key (ts_ring_buffer (report i d st)) = map trace_key (ts_ring_buffer st)" for i
    by (cases d) (simp_all add: report_def record_drop_def record_forward_outcome_def)
  moreover have "acts' = [] \<and> d = DropTTL" if "hc_ttl cfg < time_sub (de_since env) (created_at (de_now env) e)"
    using assms(2) that by (simp add: dispatch_outcome_def)
  ultimately show ?thesis
    using report_dispatched [of "dispatch_trace_id e" d st] report_acked [of "dispatch_trace_id e" d st]
    by (auto simp: drop_count_def report_def record_drop_def)
qed

lemma dispatch_counted_once_witness:
  "\<exists>st'. dispatch demo_config (\<lambda>_. ''x'') demo_env demo_event (Some (new_store 0))
       = ([Post, Wait 100000000, Post], Some st')
     \<and> ft_total_dispatched (ts_forwarding st') + drop_count st' = 1 \<and> ft_total_acked (ts_forwarding st') = 1"
proof -
  have d: "dispatch demo_config (\<lambda>_. ''x'') demo_env demo_event (Some (new_store 0))
      = ([Post, Wait 100000000, Post], Some (report 1 (Delivered 30) (new_store 0)))"
    by (simp add: dispatch_def demo_dispatch) (simp add: demo_event_def dispatch_trace_id_def)
  from dispatch_counted_once [OF d demo_dispatch] d show ?thesis
    by (simp add: new_store_def drop_count_def)
qed

section \<open>The bearer token\<close>

lemma safe_error_hides:
  assumes "token \<noteq> ''''" "CHR ''['' \<notin> set token" "CHR '']'' \<notin> set token" "\<not> sublist token ''REDACTED''"
  shows "\<not> sublist token (safe_error token msg)"
proof (cases "sublist token msg")
  case True
  have "\<not> sublist token (replace_all msg token (CHR ''['' # ''REDACTED'' @ '']''))"
    using assms by (rule replace_all_removes)
  then show ?thesis using True assms(1) by (simp add: safe_error_def str_contains_def)
qed (simp add: safe_error_def str_contains_def)

definition hides :: "string \<Rightarrow> tstore \<Rightarrow> bool" where
  "hides token st \<longleftrightarrow> (\<forall>t \<in> set (ts_ring_buffer st). \<not> sublist token (tr_error t))"

fun end_error :: "dispatch_end \<Rightarrow> string option" where
  "end_error (MarshalFailed err) = Some err"
| "end_error (Permanent _ err) = Some err"
| "end_error (Exhausted _ err) = err"
| "end_error _ = None"

lemma dispatch_loop_error:
  "dispatch_loop cfg stext created start env a le lat = (acts, d) \<Longrightarrow> end_error d = Some err \<Longrightarrow>
     \<exists>msg. err = safe_error (hc_token cfg) msg"
proof (induction cfg stext created start env a le lat arbitrary: acts rule: dispatch_loop.induct)
  case (1 cfg stext created start env a le lat)
  obtain g r where gate: "(if a > 0 then retry_gate cfg created a (env a) else ([], None)) = (g, r)" by fastforce
  have "end_error e = None" if "r = Some e" for e
    using gate that by (auto simp: retry_gate_def Let_def split: if_splits)
  note gend = this
  show ?case
  proof (cases "int a > hc_max_retries cfg \<or> r \<noteq> None \<or> ae_new_request (env a) \<noteq> None")
    case True
    with "1.prems" gate gend show ?thesis
      by (subst (asm) dispatch_loop.simps) (auto simp: Let_def split: if_splits option.splits)
  next
    case False
    then have f: "\<not> int a > hc_max_retries cfg" "r = None" "ae_new_request (env a) = None" by auto
    note IH = "1.IH" [OF f(1) refl gate [symmetric] f(2) f(3) refl]
    note loop = "1.prems"(1) [unfolded dispatch_loop.simps [of cfg _ _ _ _ a] Let_def gate]
    show ?thesis
    proof (cases "ae_response (env a)")
      case (Inl err')
      then show ?thesis using loop f IH(1) [OF Inl _ "1.prems"(2)] by (auto split: prod.splits)
    next
      case (Inr code)
      consider "200 \<le> code \<and> code < 300" | "\<not> (200 \<le> code \<and> code < 300)" "400 \<le> code \<and> code < 500"
        | "\<not> (200 \<le> code \<and> code < 300)" "\<not> (400 \<le> code \<and> code < 500)" by blast
      then show ?thesis
      proof cases
        case 3
        then show ?thesis using loop f IH(2) [OF Inr 3 _ "1.prems"(2)] Inr by (auto split: prod.splits)
      qed (use loop f Inr "1.prems"(2) in auto)
    qed
  qed
qed

lemma settle_trace_error:
  "t \<in> set (settle_trace i ou l err ts) \<Longrightarrow> sublist token (tr_error t) \<Longrightarrow>
     (\<exists>u \<in> set ts. sublist token (tr_error u)) \<or> (\<exists>x. err = Some x \<and> sublist token x)"
  by (induction ts) (auto simp: settle_def Let_def split: option.splits if_splits)

lemma report_hides:
  assumes "hides token st" "\<And>x. end_error d = Some x \<Longrightarrow> \<not> sublist token x"
  shows "hides token (report i d st)"
  using assms
  by (cases d) (auto simp: hides_def report_def record_drop_def record_forward_outcome_def
    dest!: settle_trace_error)

text \<open>
  C28: the bearer token does not reach the recorded errors. If no recorded error contains the token
  before a dispatch, none does after it, whatever the transport and the server put into their error
  texts, and whichever way the dispatch ends. The error of \<open>MarshalJSON\<close> is recorded as it is, so that
  text, which is made from the event alone, must not have the token; and the token must not contain the
  brackets of, nor be part of, the replacement text.
\<close>

theorem token_never_recorded:
  assumes "hc_token cfg \<noteq> ''''" "CHR ''['' \<notin> set (hc_token cfg)" "CHR '']'' \<notin> set (hc_token cfg)"
    and "\<not> sublist (hc_token cfg) ''REDACTED''" "hides (hc_token cfg) st"
    and "\<forall>err. de_marshal env = Some err \<longrightarrow> \<not> sublist (hc_token cfg) err"
    and "dispatch cfg stext env e (Some st) = (acts, Some st')"
  shows "hides (hc_token cfg) st'"
proof -
  obtain acts' d where o: "dispatch_outcome cfg stext env e = (acts', d)" by fastforce
  then have st': "st' = report (dispatch_trace_id e) d st" using assms(7) by (simp add: dispatch_def)
  have "\<not> sublist (hc_token cfg) x" if x: "end_error d = Some x" for x
  proof (cases "\<exists>msg. x = safe_error (hc_token cfg) msg")
    case True
    then show ?thesis using safe_error_hides [OF assms(1-4)] by blast
  next
    case False
    then have "de_marshal env = Some x"
      using o x by (auto simp: dispatch_outcome_def Let_def split: if_splits option.splits dest: dispatch_loop_error)
    then show ?thesis using assms(6) by blast
  qed
  then show ?thesis unfolding st' by (intro report_hides assms(5)) auto
qed

text \<open>A dispatch whose event cannot be encoded.\<close>

lemma token_never_recorded_witness:
  "\<exists>st'. dispatch demo_config (\<lambda>_. ''x'') (demo_env\<lparr>de_marshal := Some ''unsupported type''\<rparr>) demo_event
       (Some (new_store 0)) = ([], Some st') \<and> hides ''secret'' st'"
proof -
  let ?env = "demo_env\<lparr>de_marshal := Some ''unsupported type''\<rparr>"
  have d: "dispatch demo_config (\<lambda>_. ''x'') ?env demo_event (Some (new_store 0))
      = ([], Some (report 1 (MarshalFailed ''unsupported type'') (new_store 0)))"
    by (simp add: dispatch_def dispatch_outcome_def demo_defs created_at_def time_sub_def go_arith
        dispatch_trace_id_def Let_def)
  have t: "hc_token demo_config = ''secret''" by (simp add: demo_config_def)
  have "\<not> sublist ''secret'' ''REDACTED''" "\<not> sublist ''secret'' ''unsupported type''" by code_simp+
  moreover have "hides (hc_token demo_config) (new_store 0)" by (simp add: hides_def new_store_def)
  ultimately show ?thesis using token_never_recorded [OF _ _ _ _ _ _ d] d by (simp add: t)
qed

section \<open>The queue\<close>

text \<open>
  C29: in every reachable state no goroutine has panicked, the events accepted are those the worker
  took followed by those still queued, in order, at most \<open>BufferSize\<close> are queued, and every
  refusal is in the overflow counter.
\<close>

theorem queue_is_fifo:
  assumes "hass_reach stext uri cfg s"
  shows "\<not> hs_panicked s \<and> hs_accepted s = hs_taken s @ ch_buf (hk_events (hs_client s))
    \<and> length (ch_buf (hk_events (hs_client s))) \<le> nat (hc_buffer_size cfg)
    \<and> hk_overflow_drops (hs_client s) = of_nat (hs_refused s)"
  using hass_reach_inv [OF assms] by (auto simp: hass_inv_def client_ok_def chan_wf_def)

text \<open>
  What a step after \<open>Close\<close> may change: the worker may still take the head of the queue, as long as it
  runs. The last conjunct says that events left behind are in no counter of the store.
\<close>

definition after_close :: "hass_sys \<Rightarrow> hass_sys \<Rightarrow> bool" where
  "after_close s t \<longleftrightarrow> hs_accepted t = hs_accepted s \<and> hk_closed (hs_client t)
     \<and> (\<exists>k. hs_taken t = hs_taken s @ take k (ch_buf (hk_events (hs_client s)))
          \<and> ch_buf (hk_events (hs_client t)) = drop k (ch_buf (hk_events (hs_client s))))
     \<and> (hs_worker s \<noteq> Running \<longrightarrow> hs_worker t = hs_worker s \<and> hs_taken t = hs_taken s
          \<and> ch_buf (hk_events (hs_client t)) = ch_buf (hk_events (hs_client s))
          \<and> map_option (ft_total_dispatched \<circ> ts_forwarding) (hs_store t)
              = map_option (ft_total_dispatched \<circ> ts_forwarding) (hs_store s)
          \<and> hs_refused s \<le> hs_refused t
          \<and> map_option drop_count (hs_store t)
              = map_option (\<lambda>x. drop_count x + of_nat (hs_refused t - hs_refused s)) (hs_store s))"

lemma after_close_refl: "hk_closed (hs_client s) \<Longrightarrow> after_close s s"
  by (auto simp: after_close_def option.map_ident intro: exI [of _ 0])

lemma after_close_step:
  assumes "hass_step stext s t" "hk_closed (hs_client s)" "client_ok (hs_client s)"
  shows "after_close s t"
  using assms
proof (induction rule: hass_step.induct)
  case (enqueue_ok now e s c st)
  from hass_enqueue_cases [OF enqueue_ok(1)] enqueue_ok show ?case by simp
next
  case (enqueue_refused now e s c st)
  from hass_enqueue_cases [OF enqueue_refused(1)] enqueue_refused show ?case
    by (auto simp: after_close_def option.map_comp comp_def record_drop_def drop_count_def intro: exI [of _ 0])
next
  case (start s c)
  then show ?case by (simp add: hass_start_def split: if_splits)
next
  case (close s c)
  from hass_close_ok [OF _ close(1)] hass_close_frame [OF close(1)] close show ?case
    by (auto simp: after_close_def option.map_ident intro: exI [of _ 0])
next
  case (worker_event s e ch acts st)
  then show ?case by (auto simp: after_close_def try_recv_Received intro: exI [of _ 1])
qed (auto simp: after_close_def option.map_ident intro: exI [of _ 0])

lemma after_close_trans:
  assumes "after_close s t" "after_close t u"
  shows "after_close s u"
proof -
  obtain k where k: "hs_taken t = hs_taken s @ take k (ch_buf (hk_events (hs_client s)))"
      "ch_buf (hk_events (hs_client t)) = drop k (ch_buf (hk_events (hs_client s)))"
    using assms(1) by (auto simp: after_close_def)
  obtain l where l: "hs_taken u = hs_taken t @ take l (ch_buf (hk_events (hs_client t)))"
      "ch_buf (hk_events (hs_client u)) = drop l (ch_buf (hk_events (hs_client t)))"
    using assms(2) by (auto simp: after_close_def)
  have "hs_taken u = hs_taken s @ take (k + l) (ch_buf (hk_events (hs_client s)))
      \<and> ch_buf (hk_events (hs_client u)) = drop (k + l) (ch_buf (hk_events (hs_client s)))"
    using k l by (simp add: take_add add.commute)
  moreover have "map_option drop_count (hs_store u)
      = map_option (\<lambda>x. drop_count x + of_nat (hs_refused u - hs_refused s)) (hs_store s)"
    if "hs_worker s \<noteq> Running"
    using assms that by (cases "hs_store s"; cases "hs_store t") (auto simp: after_close_def)
  ultimately show ?thesis
    using assms unfolding after_close_def by (intro conjI exI [of _ "k + l"] impI) simp_all
qed

lemma after_close_steps:
  assumes "(hass_step stext)\<^sup>*\<^sup>* s t" "hass_inv cfg s" "hk_closed (hs_client s)"
  shows "after_close s t \<and> hass_inv cfg t"
  using assms
proof (induction rule: rtranclp_induct)
  case base
  then show ?case by (simp add: after_close_refl)
next
  case (step t u)
  then have a: "after_close s t" "hass_inv cfg t" by simp_all
  then have "after_close t u"
    using step.hyps(2) by (intro after_close_step) (auto simp: after_close_def hass_inv_def)
  then show ?case using after_close_trans [OF a(1)] hass_step_inv [OF step.hyps(2) a(2)] by simp
qed

text \<open>
  C40: \<open>Close\<close> does not flush the queue. From any reachable closed state on, no event is accepted;
  the worker may take events from the front of the queue only as long as it has not seen the
  cancellation; once it has stopped, or when it was never started, the events still queued stay there
  for good: they are never dispatched, and no counter of the store records them, neither as
  dispatched nor as dropped, since its counters change only with later refusals.
\<close>

theorem close_abandons_queue:
  assumes "hass_reach stext uri cfg s" "hk_closed (hs_client s)" "(hass_step stext)\<^sup>*\<^sup>* s t"
  shows "hs_accepted t = hs_accepted s
    \<and> (\<exists>k. hs_taken t = hs_taken s @ take k (ch_buf (hk_events (hs_client s)))
         \<and> ch_buf (hk_events (hs_client t)) = drop k (ch_buf (hk_events (hs_client s))))
    \<and> (hs_worker s \<noteq> Running \<longrightarrow> hs_taken t = hs_taken s
         \<and> ch_buf (hk_events (hs_client t)) = ch_buf (hk_events (hs_client s))
         \<and> map_option (ft_total_dispatched \<circ> ts_forwarding) (hs_store t)
             = map_option (ft_total_dispatched \<circ> ts_forwarding) (hs_store s)
         \<and> map_option drop_count (hs_store t)
             = map_option (\<lambda>x. drop_count x + of_nat (hs_refused t - hs_refused s)) (hs_store s))"
  using after_close_steps [OF assms(3) hass_reach_inv [OF assms(1)] assms(2)] by (simp add: after_close_def)

text \<open>A client that was started, accepted \<open>e\<close> and was closed before the worker took it.\<close>

definition closed_client :: "hass_config \<Rightarrow> hass_event \<Rightarrow> hass_client" where
  "closed_client cfg e =
     \<lparr>hk_cfg = cfg, hk_events = \<lparr>ch_buf = [e], ch_cap = nat (hc_buffer_size cfg), ch_closed = True\<rparr>,
      hk_cancel = Some True, hk_started = True, hk_closed = True, hk_overflow_drops = 0\<rparr>"

definition abandoned :: "hass_config \<Rightarrow> hass_event \<Rightarrow> hass_sys" where
  "abandoned cfg e = \<lparr>hs_client = closed_client cfg e, hs_store = None, hs_parent_done = False,
     hs_worker = Stopped, hs_accepted = [e], hs_taken = [], hs_refused = 0, hs_panicked = False\<rparr>"

lemma abandoned_reachable:
  assumes "hass_validate uri cfg = None" "he_created_at e \<noteq> 0"
  shows "hass_reach stext uri cfg (abandoned cfg e)"
proof -
  let ?q = "nat (hc_buffer_size cfg)"
  have q: "0 < ?q" using assms(1) by (simp add: hass_validate_None)
  let ?c0 = "\<lparr>hk_cfg = cfg, hk_events = make_chan ?q, hk_cancel = None, hk_started = False,
    hk_closed = False, hk_overflow_drops = 0\<rparr>"
  let ?c1 = "?c0\<lparr>hk_started := True, hk_cancel := Some False\<rparr>"
  let ?c2 = "?c1\<lparr>hk_events := (make_chan ?q)\<lparr>ch_buf := [e]\<rparr>\<rparr>"
  have "new_hass_client uri cfg = Inr ?c0" using assms(1) by (simp add: new_hass_client_def)
  then have r0: "hass_reach stext uri cfg (hass_init ?c0 None)" by (rule hass_reach.init)
  have "hass_start ?c0 = Inr ?c1" by (simp add: hass_start_def)
  then have r1: "hass_reach stext uri cfg ((hass_init ?c0 None)\<lparr>hs_client := ?c1, hs_worker := Running\<rparr>)"
    using hass_reach.step [OF r0 hass_step.start [of _ ?c1]] by (simp add: hass_init_def)
  have "hass_enqueue 0 e (?c1, None) = Some (True, ?c2, None)"
    using q assms(2) by (simp add: hass_enqueue_def try_send_def stamp_created_def)
  then have r2: "hass_reach stext uri cfg ((hass_init ?c0 None)\<lparr>hs_client := ?c2, hs_worker := Running, hs_accepted := [e]\<rparr>)"
    using hass_reach.step [OF r1 hass_step.enqueue_ok [of 0 e _ ?c2 None]] assms(2)
    by (simp add: hass_init_def stamp_created_def)
  have "hass_close ?c2 = Some (closed_client cfg e)"
    by (simp add: hass_close_def close_chan_def make_chan_def closed_client_def)
  then have r3: "hass_reach stext uri cfg ((hass_init ?c0 None)\<lparr>hs_client := closed_client cfg e, hs_worker := Running, hs_accepted := [e]\<rparr>)"
    using hass_reach.step [OF r2 hass_step.close [of _ "closed_client cfg e"]] by (simp add: hass_init_def)
  show ?thesis
    using hass_reach.step [OF r3 hass_step.worker_done]
    by (simp add: abandoned_def hass_init_def ctx_done_def closed_client_def)
qed

lemma close_abandons_queue_witness:
  "\<exists>s t. hass_reach (\<lambda>_. '''') demo_uri demo_config s \<and> hass_step (\<lambda>_. '''') s t \<and> hs_accepted s = [demo_event]
     \<and> hs_parent_done t \<and> ch_buf (hk_events (hs_client t)) = [demo_event] \<and> hs_taken t = []"
proof -
  let ?s = "abandoned demo_config demo_event"
  have r: "hass_reach (\<lambda>_. '''') demo_uri demo_config ?s"
    by (rule abandoned_reachable [OF demo_valid]) (simp add: demo_event_def)
  have st: "hass_step (\<lambda>_. '''') ?s (?s\<lparr>hs_parent_done := True\<rparr>)" by (rule hass_step.parent_cancel)
  have "hk_closed (hs_client ?s)" by (simp add: abandoned_def closed_client_def)
  have "(hass_step (\<lambda>_. ''''))\<^sup>*\<^sup>* ?s (?s\<lparr>hs_parent_done := True\<rparr>)" using st by (rule r_into_rtranclp)
  from close_abandons_queue [OF r \<open>hk_closed (hs_client ?s)\<close> this] r st show ?thesis
    by (intro exI [of _ ?s] exI [of _ "?s\<lparr>hs_parent_done := True\<rparr>"]) (simp add: abandoned_def closed_client_def)
qed

lemma queue_is_fifo_witness:
  "length (ch_buf (hk_events (hs_client (abandoned demo_config demo_event)))) \<le> 100"
  using queue_is_fifo [OF abandoned_reachable [OF demo_valid, of demo_event "\<lambda>_. ''''"]]
  by (simp add: demo_defs)

end
