(* ===== verification/PbMessages.thy ===== *)
theory PbMessages
  imports Json
begin

text \<open>
  The Protocol Buffer messages the bridge reads and builds, as the generated Go of \<open>pkg/pb\<close>
  declares them, and \<open>pkg/pb/event.go\<close>. A message pointer is an \<open>option\<close> (nil is \<open>None\<close>), a
  \<open>oneof\<close> is a datatype whose alternatives may hold a nil pointer, and a getter on a nil message
  gives the zero value. An enum is an \<open>int32\<close>: proto3 enums are open, so any value can arrive. The
  binary codec itself (\<open>google.golang.org/protobuf\<close>) is not part of the repository and is a
  parameter wherever it is called. Of the alternatives of \<open>StateUpdate\<close> only \<open>Input\<close> is read by
  the bridge; the others carry their undecoded payload.
\<close>

type_synonym enum32 = "32 word"

section \<open>Messages of the device\<close>

definition BB_Button_OK :: enum32 where "BB_Button_OK = 0"
definition BB_Button_BACK :: enum32 where "BB_Button_BACK = 1"
definition BB_Button_START :: enum32 where "BB_Button_START = 2"
definition BB_ButtonAction_PRESS :: enum32 where "BB_ButtonAction_PRESS = 0"
definition BB_ButtonAction_RELEASE :: enum32 where "BB_ButtonAction_RELEASE = 1"
definition BB_SwitchPosition_BUSY :: enum32 where "BB_SwitchPosition_BUSY = 0"
definition BB_SwitchPosition_CUSTOM :: enum32 where "BB_SwitchPosition_CUSTOM = 1"
definition BB_SwitchPosition_OFF :: enum32 where "BB_SwitchPosition_OFF = 2"
definition BB_SwitchPosition_APPS :: enum32 where "BB_SwitchPosition_APPS = 3"
definition BB_SwitchPosition_SETTINGS :: enum32 where "BB_SwitchPosition_SETTINGS = 4"

lemmas bb_enums = BB_Button_OK_def BB_Button_BACK_def BB_Button_START_def BB_ButtonAction_PRESS_def
  BB_ButtonAction_RELEASE_def BB_SwitchPosition_BUSY_def BB_SwitchPosition_CUSTOM_def
  BB_SwitchPosition_OFF_def BB_SwitchPosition_APPS_def BB_SwitchPosition_SETTINGS_def

record bb_button_event =
  bbe_button :: enum32
  bbe_action :: enum32

record bb_switch_event =
  bse_position :: enum32

record bb_encoder_event =
  bee_delta :: "32 word"

definition ButtonEvent_GetButton :: "bb_button_event option \<Rightarrow> enum32" where
  "ButtonEvent_GetButton x = (case x of Some m \<Rightarrow> bbe_button m | None \<Rightarrow> BB_Button_OK)"

definition ButtonEvent_GetAction :: "bb_button_event option \<Rightarrow> enum32" where
  "ButtonEvent_GetAction x = (case x of Some m \<Rightarrow> bbe_action m | None \<Rightarrow> BB_ButtonAction_PRESS)"

definition SwitchEvent_GetPosition :: "bb_switch_event option \<Rightarrow> enum32" where
  "SwitchEvent_GetPosition x = (case x of Some m \<Rightarrow> bse_position m | None \<Rightarrow> BB_SwitchPosition_BUSY)"

definition EncoderEvent_GetDelta :: "bb_encoder_event option \<Rightarrow> 32 word" where
  "EncoderEvent_GetDelta x = (case x of Some m \<Rightarrow> bee_delta m | None \<Rightarrow> 0)"

datatype input_oneof =
    InputEvent_ButtonEvent "bb_button_event option"
  | InputEvent_SwitchEvent "bb_switch_event option"
  | InputEvent_EncoderEvent "bb_encoder_event option"

record input_event =
  ie_event :: "input_oneof option"

definition InputEvent_GetEvent :: "input_event option \<Rightarrow> input_oneof option" where
  "InputEvent_GetEvent x = (case x of Some m \<Rightarrow> ie_event m | None \<Rightarrow> None)"

datatype state_oneof =
    StateUpdate_DeviceName string
  | StateUpdate_Power string
  | StateUpdate_Brightness string
  | StateUpdate_AudioVolume string
  | StateUpdate_Wifi string
  | StateUpdate_UpdateState string
  | StateUpdate_UpdateCheck string
  | StateUpdate_Timezone string
  | StateUpdate_Matter string
  | StateUpdate_Frame string
  | StateUpdate_Input "input_event option"
  | StateUpdate_Timer string
  | StateUpdate_Ble string
  | StateUpdate_AutoUpdateState string
  | StateUpdate_TimerProfiles string

record state_update =
  su_state :: "state_oneof option"

definition StateUpdate_GetInput :: "state_update option \<Rightarrow> input_event option" where
  "StateUpdate_GetInput x = (case x of
     None \<Rightarrow> None
   | Some m \<Rightarrow> (case su_state m of Some (StateUpdate_Input i) \<Rightarrow> i | _ \<Rightarrow> None))"

record bb_state =
  bs_timestamp :: "64 word"
  bs_updates :: "state_update option list"
  bs_error :: "string option"

section \<open>Normalized events\<close>

definition Button_UNKNOWN :: enum32 where "Button_UNKNOWN = 0"
definition Button_OK :: enum32 where "Button_OK = 1"
definition Button_BACK :: enum32 where "Button_BACK = 2"
definition Button_START :: enum32 where "Button_START = 3"
definition ACTION_UNKNOWN :: enum32 where "ACTION_UNKNOWN = 0"
definition ACTION_PRESS :: enum32 where "ACTION_PRESS = 1"
definition ACTION_RELEASE :: enum32 where "ACTION_RELEASE = 2"
definition SWITCH_UNKNOWN :: enum32 where "SWITCH_UNKNOWN = 0"
definition SWITCH_BUSY :: enum32 where "SWITCH_BUSY = 1"
definition SWITCH_CUSTOM :: enum32 where "SWITCH_CUSTOM = 2"
definition SWITCH_OFF :: enum32 where "SWITCH_OFF = 3"
definition SWITCH_APPS :: enum32 where "SWITCH_APPS = 4"
definition SWITCH_SETTINGS :: enum32 where "SWITCH_SETTINGS = 5"

lemmas norm_enums = Button_UNKNOWN_def Button_OK_def Button_BACK_def Button_START_def
  ACTION_UNKNOWN_def ACTION_PRESS_def ACTION_RELEASE_def SWITCH_UNKNOWN_def SWITCH_BUSY_def
  SWITCH_CUSTOM_def SWITCH_OFF_def SWITCH_APPS_def SWITCH_SETTINGS_def

record norm_button =
  nb_device :: string
  nb_button :: enum32
  nb_action :: enum32
  nb_timestamp :: int

record norm_switch =
  nw_device :: string
  nw_position :: enum32
  nw_timestamp :: int

record norm_encoder =
  nc_device :: string
  nc_delta :: "32 word"
  nc_timestamp :: int

datatype norm_oneof =
    NormalizedEvent_Button "norm_button option"
  | NormalizedEvent_Switch "norm_switch option"
  | NormalizedEvent_Encoder "norm_encoder option"

record norm_event =
  ne_device :: string
  ne_timestamp :: int
  ne_event :: "norm_oneof option"

section \<open>pkg/pb/event.go\<close>

definition button_str :: "enum32 \<Rightarrow> string" where
  "button_str b = (if b = Button_OK then ''ok'' else if b = Button_BACK then ''back''
     else if b = Button_START then ''start'' else ''unknown'')"

definition action_str :: "enum32 \<Rightarrow> string" where
  "action_str a = (if a = ACTION_PRESS then ''press'' else if a = ACTION_RELEASE then ''release''
     else ''unknown'')"

definition position_str :: "enum32 \<Rightarrow> string" where
  "position_str p = (if p = SWITCH_BUSY then ''busy'' else if p = SWITCH_CUSTOM then ''custom''
     else if p = SWITCH_OFF then ''off'' else if p = SWITCH_APPS then ''apps''
     else if p = SWITCH_SETTINGS then ''settings'' else ''unknown'')"

datatype pb_error = NilEvent | MissingButton | MissingSwitch | MissingEncoder | UnsupportedEvent

text \<open>\<open>ToHomeAssistantJSON\<close>: the payload struct, its fields in the order of the declaration.\<close>

definition pb_payload :: "norm_event option \<Rightarrow> pb_error + gmap" where
  "pb_payload e = (case e of
     None \<Rightarrow> Inl NilEvent
   | Some ev \<Rightarrow> (case ne_event ev of
       Some (NormalizedEvent_Button None) \<Rightarrow> Inl MissingButton
     | Some (NormalizedEvent_Button (Some b)) \<Rightarrow>
         (let device = (if ne_device ev = '''' then nb_device b else ne_device ev);
              ts = (if ne_timestamp ev = 0 then nb_timestamp b else ne_timestamp ev)
          in Inr [(''device'', GStr device), (''type'', GStr ''button''),
                  (''button'', GStr (button_str (nb_button b))),
                  (''action'', GStr (action_str (nb_action b))), (''timestamp'', GInt64 ts)])
     | Some (NormalizedEvent_Switch None) \<Rightarrow> Inl MissingSwitch
     | Some (NormalizedEvent_Switch (Some w)) \<Rightarrow>
         (let device = (if ne_device ev = '''' then nw_device w else ne_device ev);
              ts = (if ne_timestamp ev = 0 then nw_timestamp w else ne_timestamp ev)
          in Inr [(''device'', GStr device), (''type'', GStr ''switch''),
                  (''position'', GStr (position_str (nw_position w))), (''timestamp'', GInt64 ts)])
     | Some (NormalizedEvent_Encoder None) \<Rightarrow> Inl MissingEncoder
     | Some (NormalizedEvent_Encoder (Some c)) \<Rightarrow>
         (let device = (if ne_device ev = '''' then nc_device c else ne_device ev);
              ts = (if ne_timestamp ev = 0 then nc_timestamp c else ne_timestamp ev)
          in Inr [(''device'', GStr device), (''type'', GStr ''encoder''),
                  (''delta'', GInt (sint (nc_delta c))), (''timestamp'', GInt64 ts)])
     | None \<Rightarrow> Inl UnsupportedEvent))"

definition pb_to_home_assistant_json :: "(rat \<Rightarrow> string) \<Rightarrow> norm_event option \<Rightarrow> pb_error + string option" where
  "pb_to_home_assistant_json ff e = (case pb_payload e of
     Inl err \<Rightarrow> Inl err
   | Inr p \<Rightarrow> Inr (json_struct ff p))"

section \<open>Calendar bindings and frames\<close>

record calendar_binding =
  cb_email :: string
  cb_calendar_id :: string
  cb_access_token :: string
  cb_refresh_token :: string
  cb_token_expiry_unix :: int
  cb_linked_at_unix :: int

definition Screen_FRONT :: enum32 where "Screen_FRONT = 0"
definition Screen_BACK :: enum32 where "Screen_BACK = 1"
definition Encoding_PLAIN :: enum32 where "Encoding_PLAIN = 0"
definition PixelFormat_RGB888 :: enum32 where "PixelFormat_RGB888 = 0"

type_synonym byte8 = "8 word"

record frame =
  fr_screen :: enum32
  fr_width :: "32 word"
  fr_height :: "32 word"
  fr_encoding :: enum32
  fr_pixel_format :: enum32
  fr_data :: "byte8 list"

definition Frame_GetData :: "frame option \<Rightarrow> byte8 list" where
  "Frame_GetData x = (case x of Some m \<Rightarrow> fr_data m | None \<Rightarrow> [])"

end
