(* ===== verification/Decoder.thy ===== *)
theory Decoder
  imports PbMessages Channels "HOL-Library.Multiset"
begin

text \<open>
  \<open>internal/busybar/decoder.go\<close>: a binary frame becomes normalized events. The Protocol Buffer
  codec is the parameter \<open>unmarshal\<close> (an error text or the message). The calls of the
  \<open>MetricsRecorder\<close> are a list of \<open>metric_call\<close>s, in order.

  \<open>Run\<close> is a step relation: the goroutine between its two \<open>select\<close> statements, and around it
  the producer of frames, the consumer of events and the cancellation of the context. A \<open>select\<close>
  may take any ready case, its \<open>default\<close> only when no case is ready. Three ghost fields record
  the frames taken, the events the consumer got and the events dropped.

  Lemmas: what \<open>Decode\<close> returns, enum by enum; \<open>Run\<close> loses no event silently and keeps order.
\<close>

section \<open>Decode\<close>

definition mapButton :: "enum32 \<Rightarrow> enum32" where
  "mapButton b = (if b = BB_Button_OK then Button_OK else if b = BB_Button_BACK then Button_BACK
     else if b = BB_Button_START then Button_START else Button_UNKNOWN)"

definition mapButtonAction :: "enum32 \<Rightarrow> enum32" where
  "mapButtonAction a = (if a = BB_ButtonAction_PRESS then ACTION_PRESS
     else if a = BB_ButtonAction_RELEASE then ACTION_RELEASE else ACTION_UNKNOWN)"

definition mapSwitchPosition :: "enum32 \<Rightarrow> enum32" where
  "mapSwitchPosition p = (if p = BB_SwitchPosition_BUSY then SWITCH_BUSY
     else if p = BB_SwitchPosition_CUSTOM then SWITCH_CUSTOM
     else if p = BB_SwitchPosition_OFF then SWITCH_OFF
     else if p = BB_SwitchPosition_APPS then SWITCH_APPS
     else if p = BB_SwitchPosition_SETTINGS then SWITCH_SETTINGS else SWITCH_UNKNOWN)"

definition norm_event_of :: "string \<Rightarrow> int \<Rightarrow> norm_oneof \<Rightarrow> norm_event" where
  "norm_event_of device ts ev = \<lparr>ne_device = device, ne_timestamp = ts, ne_event = Some ev\<rparr>"

text \<open>One turn of the loop over the updates; \<open>None\<close> is a \<open>continue\<close>.\<close>

definition decode_update :: "string \<Rightarrow> int \<Rightarrow> state_update option \<Rightarrow> norm_event option" where
  "decode_update device ts update =
     (if update = None then None
      else (case StateUpdate_GetInput update of
        None \<Rightarrow> None
      | Some input \<Rightarrow> (case InputEvent_GetEvent (Some input) of
          Some (InputEvent_ButtonEvent evt) \<Rightarrow>
            (if evt = None then None
             else Some (norm_event_of device ts (NormalizedEvent_Button (Some
               \<lparr>nb_device = device, nb_button = mapButton (ButtonEvent_GetButton evt),
                nb_action = mapButtonAction (ButtonEvent_GetAction evt), nb_timestamp = ts\<rparr>))))
        | Some (InputEvent_SwitchEvent evt) \<Rightarrow>
            (if evt = None then None
             else Some (norm_event_of device ts (NormalizedEvent_Switch (Some
               \<lparr>nw_device = device, nw_position = mapSwitchPosition (SwitchEvent_GetPosition evt),
                nw_timestamp = ts\<rparr>))))
        | Some (InputEvent_EncoderEvent evt) \<Rightarrow>
            (if evt = None then None
             else Some (norm_event_of device ts (NormalizedEvent_Encoder (Some
               \<lparr>nc_device = device, nc_delta = EncoderEvent_GetDelta evt, nc_timestamp = ts\<rparr>))))
        | None \<Rightarrow> None)))"

fun decode_updates :: "string \<Rightarrow> int \<Rightarrow> state_update option list \<Rightarrow> norm_event list" where
  "decode_updates device ts [] = []"
| "decode_updates device ts (u # us) = (case decode_update device ts u of
     None \<Rightarrow> decode_updates device ts us
   | Some e \<Rightarrow> e # decode_updates device ts us)"

datatype metric_call = RecordDecodeSuccess nat | RecordDecodeError | RecordDroppedFrame

type_synonym codec = "string \<Rightarrow> string + bb_state"

definition frame_timestamp :: "gtime \<Rightarrow> bb_state \<Rightarrow> int" where
  "frame_timestamp now st = (let ts = sint (bs_timestamp st) in if ts \<le> 0 then unix_of now else ts)"

definition decode :: "codec \<Rightarrow> string \<Rightarrow> gtime \<Rightarrow> string \<Rightarrow> (string + norm_event list) \<times> metric_call list" where
  "decode unmarshal device now payload = (case unmarshal payload of
     Inl err \<Rightarrow> (Inl (''failed to unmarshal BSB_State.State payload: '' @ err), [RecordDecodeError])
   | Inr st \<Rightarrow>
       (let events = decode_updates device (frame_timestamp now st) (bs_updates st)
        in (Inr events, if events = [] then [] else [RecordDecodeSuccess (length events)])))"

text \<open>The package function \<open>ToHomeAssistantJSON\<close> adds a nil check to the method.\<close>

definition to_home_assistant_json :: "(rat \<Rightarrow> string) \<Rightarrow> norm_event option \<Rightarrow> pb_error + string option" where
  "to_home_assistant_json ff evt = (if evt = None then Inl NilEvent else pb_to_home_assistant_json ff evt)"

section \<open>Run\<close>

datatype run_result = RunCancelled | RunFramesClosed

record decoder_run =
  dr_frames :: "string chan"
  dr_out :: "norm_event chan"
  dr_done :: bool
  dr_pending :: "norm_event list"
  dr_exit :: "run_result option"
  dr_metrics :: "metric_call list"
  dr_taken :: "(gtime \<times> string) list"
  dr_delivered :: "norm_event list"
  dr_dropped :: "norm_event list"

definition frame_events :: "codec \<Rightarrow> string \<Rightarrow> gtime \<times> string \<Rightarrow> norm_event list" where
  "frame_events unmarshal device f =
     (case fst (decode unmarshal device (fst f) (snd f)) of Inl _ \<Rightarrow> [] | Inr evs \<Rightarrow> evs)"

text \<open>
  In \<open>inner_handoff\<close> a receiver is waiting on the output channel and gets the event directly, which is
  the only way through an unbuffered channel.
\<close>

inductive decoder_step :: "codec \<Rightarrow> string \<Rightarrow> decoder_run \<Rightarrow> decoder_run \<Rightarrow> bool"
  for unmarshal device where
  cancel: "decoder_step unmarshal device s (s\<lparr>dr_done := True\<rparr>)"
| produce: "chan_push f (dr_frames s) = Some c \<Longrightarrow>
     decoder_step unmarshal device s (s\<lparr>dr_frames := c\<rparr>)"
| close_frames: "close_chan (dr_frames s) = Some c \<Longrightarrow>
     decoder_step unmarshal device s (s\<lparr>dr_frames := c\<rparr>)"
| consume: "try_recv (dr_out s) = Received e c \<Longrightarrow>
     decoder_step unmarshal device s (s\<lparr>dr_out := c, dr_delivered := dr_delivered s @ [e]\<rparr>)"
| outer_done: "dr_exit s = None \<Longrightarrow> dr_pending s = [] \<Longrightarrow> dr_done s \<Longrightarrow>
     decoder_step unmarshal device s (s\<lparr>dr_exit := Some RunCancelled\<rparr>)"
| outer_closed: "dr_exit s = None \<Longrightarrow> dr_pending s = [] \<Longrightarrow> try_recv (dr_frames s) = RecvClosed \<Longrightarrow>
     decoder_step unmarshal device s (s\<lparr>dr_exit := Some RunFramesClosed\<rparr>)"
| outer_frame: "dr_exit s = None \<Longrightarrow> dr_pending s = [] \<Longrightarrow> try_recv (dr_frames s) = Received f c \<Longrightarrow>
     decoder_step unmarshal device s (s\<lparr>dr_frames := c, dr_taken := dr_taken s @ [(now, f)],
       dr_pending := frame_events unmarshal device (now, f),
       dr_metrics := dr_metrics s @ snd (decode unmarshal device now f)\<rparr>)"
| inner_done: "dr_exit s = None \<Longrightarrow> dr_pending s \<noteq> [] \<Longrightarrow> dr_done s \<Longrightarrow>
     decoder_step unmarshal device s (s\<lparr>dr_exit := Some RunCancelled\<rparr>)"
| inner_send: "dr_exit s = None \<Longrightarrow> dr_pending s = e # es \<Longrightarrow> chan_push e (dr_out s) = Some c \<Longrightarrow>
     decoder_step unmarshal device s (s\<lparr>dr_out := c, dr_pending := es\<rparr>)"
| inner_handoff: "dr_exit s = None \<Longrightarrow> dr_pending s = e # es \<Longrightarrow> \<not> ch_closed (dr_out s) \<Longrightarrow> ch_buf (dr_out s) = [] \<Longrightarrow>
     decoder_step unmarshal device s (s\<lparr>dr_delivered := dr_delivered s @ [e], dr_pending := es\<rparr>)"
| inner_drop: "dr_exit s = None \<Longrightarrow> dr_pending s = e # es \<Longrightarrow> \<not> dr_done s \<Longrightarrow>
     try_send e (dr_out s) = WouldBlock \<Longrightarrow>
     decoder_step unmarshal device s (s\<lparr>dr_pending := es, dr_metrics := dr_metrics s @ [RecordDroppedFrame],
       dr_dropped := dr_dropped s @ [e]\<rparr>)"

definition decoder_init :: "nat \<Rightarrow> nat \<Rightarrow> decoder_run" where
  "decoder_init fcap ocap = \<lparr>dr_frames = make_chan fcap, dr_out = make_chan ocap, dr_done = False,
     dr_pending = [], dr_exit = None, dr_metrics = [], dr_taken = [], dr_delivered = [], dr_dropped = []\<rparr>"

inductive decoder_reach :: "codec \<Rightarrow> string \<Rightarrow> nat \<Rightarrow> nat \<Rightarrow> decoder_run \<Rightarrow> bool"
  for unmarshal device fcap ocap where
  start: "decoder_reach unmarshal device fcap ocap (decoder_init fcap ocap)"
| step: "decoder_reach unmarshal device fcap ocap s \<Longrightarrow> decoder_step unmarshal device s t \<Longrightarrow>
     decoder_reach unmarshal device fcap ocap t"

section \<open>Facts on Decode\<close>

text \<open>
  The specification: known enum values move up by one, unknown ones become 0, and only input
  updates with a payload yield an event.
\<close>

definition shift_known :: "enum32 \<Rightarrow> enum32 \<Rightarrow> enum32" where
  "shift_known n v = (if v < n then v + 1 else 0)"

lemma word_less_cases:
  "(v::enum32) < 2 \<longleftrightarrow> v = 0 \<or> v = 1"
  "(v::enum32) < 3 \<longleftrightarrow> v = 0 \<or> v = 1 \<or> v = 2"
  "(v::enum32) < 5 \<longleftrightarrow> v = 0 \<or> v = 1 \<or> v = 2 \<or> v = 3 \<or> v = 4"
  by (auto simp: word_less_nat_alt word_unat_eq_iff)

lemma mapButton_shift: "mapButton b = shift_known 3 b"
  by (auto simp: mapButton_def shift_known_def bb_enums norm_enums word_less_cases)

lemma mapButtonAction_shift: "mapButtonAction b = shift_known 2 b"
  by (auto simp: mapButtonAction_def shift_known_def bb_enums norm_enums word_less_cases)

lemma mapSwitchPosition_shift: "mapSwitchPosition b = shift_known 5 b"
  by (auto simp: mapSwitchPosition_def shift_known_def bb_enums norm_enums word_less_cases)

fun input_spec :: "string \<Rightarrow> int \<Rightarrow> input_oneof \<Rightarrow> norm_oneof option" where
  "input_spec d ts (InputEvent_ButtonEvent (Some b)) = Some (NormalizedEvent_Button (Some
     \<lparr>nb_device = d, nb_button = shift_known 3 (bbe_button b), nb_action = shift_known 2 (bbe_action b),
      nb_timestamp = ts\<rparr>))"
| "input_spec d ts (InputEvent_SwitchEvent (Some w)) = Some (NormalizedEvent_Switch (Some
     \<lparr>nw_device = d, nw_position = shift_known 5 (bse_position w), nw_timestamp = ts\<rparr>))"
| "input_spec d ts (InputEvent_EncoderEvent (Some c)) = Some (NormalizedEvent_Encoder (Some
     \<lparr>nc_device = d, nc_delta = bee_delta c, nc_timestamp = ts\<rparr>))"
| "input_spec d ts _ = None"

definition update_spec :: "string \<Rightarrow> int \<Rightarrow> state_update option \<Rightarrow> norm_event list" where
  "update_spec d ts u = (case Option.bind (StateUpdate_GetInput u) ie_event of
     None \<Rightarrow> []
   | Some i \<Rightarrow> (case input_spec d ts i of None \<Rightarrow> []
       | Some ev \<Rightarrow> [\<lparr>ne_device = d, ne_timestamp = ts, ne_event = Some ev\<rparr>]))"

lemma decode_update_spec:
  "update_spec d ts u = (case decode_update d ts u of None \<Rightarrow> [] | Some e \<Rightarrow> [e])"
  by (auto simp: update_spec_def decode_update_def StateUpdate_GetInput_def InputEvent_GetEvent_def
      norm_event_of_def mapButton_shift mapButtonAction_shift mapSwitchPosition_shift
      ButtonEvent_GetButton_def ButtonEvent_GetAction_def SwitchEvent_GetPosition_def
      EncoderEvent_GetDelta_def split: option.splits input_oneof.splits state_oneof.splits)

lemma decode_updates_spec: "decode_updates d ts us = concat (map (update_spec d ts) us)"
  by (induction us) (auto simp: decode_update_spec split: option.split)

lemma update_spec_fields: "e \<in> set (update_spec d ts u) \<Longrightarrow> ne_device e = d \<and> ne_timestamp e = ts"
  by (auto simp: update_spec_def split: option.splits)

lemma length_update_spec: "length (update_spec d ts u) \<le> 1"
  by (auto simp: update_spec_def split: option.splits)

lemma length_concat_le:
  assumes "\<And>x. length (f x) \<le> 1"
  shows "length (concat (map f xs)) \<le> length xs"
proof (induction xs)
  case (Cons x xs)
  then show ?case using assms [of x] by simp
qed simp

section \<open>Facts on Run\<close>

definition taken_events :: "codec \<Rightarrow> string \<Rightarrow> decoder_run \<Rightarrow> norm_event list" where
  "taken_events unmarshal device s = concat (map (frame_events unmarshal device) (dr_taken s))"

definition decoder_inv :: "codec \<Rightarrow> string \<Rightarrow> decoder_run \<Rightarrow> bool" where
  "decoder_inv unmarshal device s \<longleftrightarrow>
     mset (taken_events unmarshal device s)
       = mset (dr_delivered s) + mset (ch_buf (dr_out s)) + mset (dr_dropped s) + mset (dr_pending s)
     \<and> subseq (dr_delivered s @ ch_buf (dr_out s) @ dr_pending s) (taken_events unmarshal device s)
     \<and> count_list (dr_metrics s) RecordDroppedFrame = length (dr_dropped s)
     \<and> chan_open (dr_out s)"

lemma decode_never_drops: "count_list (snd (decode unmarshal d now f)) RecordDroppedFrame = 0"
  by (auto simp: decode_def Let_def split: sum.split)

lemma subseq_drop_middle: "subseq (xs @ y # ys) zs \<Longrightarrow> subseq (xs @ ys) zs"
  by (meson subseq_Cons' subseq_append' subseq_order.dual_order.trans subseq_append_iff list_emb_Cons
      list_emb_append_mono subseq_order.refl)

lemma decoder_step_inv:
  "decoder_step unmarshal device s t \<Longrightarrow> decoder_inv unmarshal device s \<Longrightarrow> decoder_inv unmarshal device t"
proof (induction rule: decoder_step.induct)
  case (consume s e c)
  then show ?case by (auto simp: decoder_inv_def taken_events_def try_recv_Received chan_open_def chan_wf_def)
next
  case (outer_frame s f c now)
  then show ?case
    by (auto simp: decoder_inv_def taken_events_def decode_never_drops
        intro: list_emb_append_mono [of _ "_ @ _" _ "_", simplified])
next
  case (inner_send s e es c)
  then show ?case
    using chanq.push_items [of "dr_out s" e c] chanq.push_keeps [of "dr_out s" e c]
    by (auto simp: decoder_inv_def taken_events_def)
next
  case (inner_drop s e es)
  then have "subseq ((dr_delivered s @ ch_buf (dr_out s)) @ es) (taken_events unmarshal device s)"
    by (simp add: decoder_inv_def subseq_drop_middle [where y = e and ys = es, of "dr_delivered s @ ch_buf (dr_out s)", simplified])
  with inner_drop show ?case by (simp add: decoder_inv_def taken_events_def)
qed (simp_all add: decoder_inv_def taken_events_def)

lemma decoder_reach_inv: "decoder_reach unmarshal device fcap ocap s \<Longrightarrow> decoder_inv unmarshal device s"
proof (induction rule: decoder_reach.induct)
  case start
  show ?case by (simp add: decoder_inv_def taken_events_def decoder_init_def)
next
  case (step s t)
  then show ?case by (blast intro: decoder_step_inv)
qed

lemma decoder_inv_subseq:
  "decoder_inv unmarshal device s \<Longrightarrow>
     subseq (dr_delivered s @ ch_buf (dr_out s)) (taken_events unmarshal device s)"
  by (metis append.assoc append_Nil2 decoder_inv_def list_emb_append2 subseq_append_iff subseq_order.trans
      subseq_rev_drop_many prefix_imp_subseq prefixI)

inductive_cases decoder_stepE: "decoder_step unmarshal device s t"

section \<open>Properties\<close>

text \<open>
  C18: \<open>Decode\<close> returns exactly the specified events: one for each input update with a payload, in
  the order of the updates, with the device identifier, the frame's timestamp (or the clock when the
  frame has none), and every enum value shifted by one or unknown; one metric call reports the count.
\<close>

theorem decode_meets_spec:
  assumes "unmarshal payload = Inr st"
  shows "decode unmarshal device now payload =
     (let evs = concat (map (update_spec device (frame_timestamp now st)) (bs_updates st))
      in (Inr evs, if evs = [] then [] else [RecordDecodeSuccess (length evs)]))"
  using assms by (simp add: decode_def decode_updates_spec Let_def)

theorem decode_meets_spec_witness:
  "decode (\<lambda>_. Inr \<lparr>bs_timestamp = 5, bs_updates = [None,
      Some \<lparr>su_state = Some (StateUpdate_Input (Some \<lparr>ie_event =
        Some (InputEvent_ButtonEvent (Some \<lparr>bbe_button = 1, bbe_action = 9\<rparr>))\<rparr>))\<rparr>],
      bs_error = None\<rparr>) ''bar'' 0 ''x''
   = (Inr [\<lparr>ne_device = ''bar'', ne_timestamp = 5, ne_event = Some (NormalizedEvent_Button (Some
        \<lparr>nb_device = ''bar'', nb_button = 2, nb_action = 0, nb_timestamp = 5\<rparr>))\<rparr>],
      [RecordDecodeSuccess 1])"
  by (subst decode_meets_spec [OF refl])
    (simp add: update_spec_def StateUpdate_GetInput_def shift_known_def frame_timestamp_def Let_def)

text \<open>
  C1: \<open>Run\<close> accounts for every event. In every reachable state the events decoded so far are,
  as a multiset, those the consumer received, those waiting in the output channel, those dropped
  and those not yet offered; the events on the output keep the order they were decoded in; and the
  recorder was told of exactly as many drops as there were.
\<close>

theorem run_accounts_for_events:
  assumes "decoder_reach unmarshal device fcap ocap s"
  shows "mset (taken_events unmarshal device s)
       = mset (dr_delivered s) + mset (ch_buf (dr_out s)) + mset (dr_dropped s) + mset (dr_pending s)
     \<and> subseq (dr_delivered s @ ch_buf (dr_out s)) (taken_events unmarshal device s)
     \<and> count_list (dr_metrics s) RecordDroppedFrame = length (dr_dropped s)"
  using decoder_reach_inv [OF assms] decoder_inv_subseq by (auto simp: decoder_inv_def)

theorem run_accounts_for_events_witness:
  "\<exists>s. decoder_reach (\<lambda>_. Inr \<lparr>bs_timestamp = 5, bs_updates = [Some \<lparr>su_state = Some (StateUpdate_Input
        (Some \<lparr>ie_event = Some (InputEvent_EncoderEvent (Some \<lparr>bee_delta = 1\<rparr>))\<rparr>))\<rparr>], bs_error = None\<rparr>)
      ''bar'' 1 0 s
     \<and> length (dr_dropped s) = 1 \<and> count_list (dr_metrics s) RecordDroppedFrame = 1"
proof -
  let ?u = "\<lambda>_::string. Inr \<lparr>bs_timestamp = 5, bs_updates = [Some \<lparr>su_state = Some (StateUpdate_Input
        (Some \<lparr>ie_event = Some (InputEvent_EncoderEvent (Some \<lparr>bee_delta = 1\<rparr>))\<rparr>))\<rparr>], bs_error = None\<rparr>
      :: string + bb_state"
  let ?i = "decoder_init 1 0"
  let ?s1 = "?i\<lparr>dr_frames := (make_chan 1)\<lparr>ch_buf := [''x'']\<rparr>\<rparr>"
  let ?e = "norm_event_of ''bar'' 5 (NormalizedEvent_Encoder (Some
       \<lparr>nc_device = ''bar'', nc_delta = 1, nc_timestamp = 5\<rparr>))"
  have d: "decode ?u ''bar'' 0 ''x'' = (Inr [?e], [RecordDecodeSuccess 1])"
    by (simp add: decode_def frame_timestamp_def decode_update_def StateUpdate_GetInput_def
        InputEvent_GetEvent_def EncoderEvent_GetDelta_def Let_def)
  let ?s2 = "?i\<lparr>dr_taken := [(0, ''x'')], dr_pending := [?e], dr_metrics := [RecordDecodeSuccess 1]\<rparr>"
  let ?s3 = "?s2\<lparr>dr_pending := [], dr_metrics := [RecordDecodeSuccess 1, RecordDroppedFrame],
     dr_dropped := [?e]\<rparr>"
  have 0: "decoder_reach ?u ''bar'' 1 0 ?i" by (rule decoder_reach.start)
  have "decoder_step ?u ''bar'' ?i ?s1"
    by (rule decoder_step.produce [of "''x''"]) (simp add: decoder_init_def chan_push_def try_send_def)
  with 0 have 1: "decoder_reach ?u ''bar'' 1 0 ?s1" by (rule decoder_reach.step)
  have "decoder_step ?u ''bar'' ?s1 ?s2"
    using decoder_step.outer_frame [of ?s1 "''x''" "make_chan 1" ?u "''bar''" 0] d
    by (simp add: decoder_init_def try_recv_def frame_events_def make_chan_def)
  with 1 have 2: "decoder_reach ?u ''bar'' 1 0 ?s2" by (rule decoder_reach.step)
  have "decoder_step ?u ''bar'' ?s2 ?s3"
    using decoder_step.inner_drop [of ?s2 ?e "[]" ?u "''bar''"]
    by (simp add: decoder_init_def try_send_def)
  with 2 have 3: "decoder_reach ?u ''bar'' 1 0 ?s3" by (rule decoder_reach.step)
  show ?thesis using run_accounts_for_events [OF 3] 3 by (intro exI [of _ ?s3]) simp
qed

end
