(* ===== verification/GoNet.thy ===== *)
theory GoNet
  imports GoStrings
begin

text \<open>
  The functions of Go's package \<open>net\<close> on \<open>host:port\<close> texts, used by the endpoint of the Busy
  Bar client, by the push client and by the listen address of the server, and \<open>strings.Index\<close> of
  a byte.
\<close>

fun index_byte :: "char \<Rightarrow> string \<Rightarrow> nat option" where
  "index_byte c [] = None"
| "index_byte c (x # xs) = (if x = c then Some 0 else map_option Suc (index_byte c xs))"

definition last_index_byte :: "char \<Rightarrow> string \<Rightarrow> nat option" where
  "last_index_byte c s = map_option (\<lambda>i. length s - 1 - i) (index_byte c (rev s))"

datatype split_error = MissingPort | TooManyColons | MissingBracket | UnexpectedOpen | UnexpectedClose

definition split_host_port :: "string \<Rightarrow> split_error + (string \<times> string)" where
  "split_host_port s = (case last_index_byte (CHR '':'') s of
     None \<Rightarrow> Inl MissingPort
   | Some i \<Rightarrow>
      (let finish = (\<lambda>host j k.
         if index_byte (CHR ''['') (drop j s) \<noteq> None then Inl UnexpectedOpen
         else if index_byte (CHR '']'') (drop k s) \<noteq> None then Inl UnexpectedClose
         else Inr (host, drop (i + 1) s))
       in if take 1 s = ''['' then
         (case index_byte (CHR '']'') s of
            None \<Rightarrow> Inl MissingBracket
          | Some e \<Rightarrow>
              if e + 1 = length s then Inl MissingPort
              else if e + 1 = i then finish (drop 1 (take e s)) 1 (e + 1)
              else if s ! (e + 1) = CHR '':'' then Inl TooManyColons else Inl MissingPort)
       else (let host = take i s in
         if index_byte (CHR '':'') host \<noteq> None then Inl TooManyColons else finish host 0 0)))"

definition join_host_port :: "string \<Rightarrow> string \<Rightarrow> string" where
  "join_host_port host port =
     (if index_byte (CHR '':'') host \<noteq> None then ''['' @ host @ '']:'' @ port else host @ '':'' @ port)"

section \<open>Facts\<close>

lemma index_byte_None: "index_byte c s = None \<longleftrightarrow> c \<notin> set s"
  by (induction s) auto

lemma index_byte_Some:
  "index_byte c s = Some i \<Longrightarrow> i < length s \<and> s ! i = c \<and> c \<notin> set (take i s)"
  by (induction s arbitrary: i) (auto split: if_splits)

lemma index_byte_append: "c \<notin> set xs \<Longrightarrow> index_byte c (xs @ c # ys) = Some (length xs)"
  by (induction xs) auto

lemma last_index_byte_append: "c \<notin> set ys \<Longrightarrow> last_index_byte c (xs @ c # ys) = Some (length xs)"
  by (simp add: last_index_byte_def index_byte_append)

lemma last_index_byte_None: "last_index_byte c s = None \<longleftrightarrow> c \<notin> set s"
  by (simp add: last_index_byte_def index_byte_None)

text \<open>A text without colons and brackets is a host name; joined to a port it splits again.\<close>

definition plain_host :: "string \<Rightarrow> bool" where
  "plain_host h \<longleftrightarrow> h \<noteq> '''' \<and> CHR '':'' \<notin> set h \<and> CHR ''['' \<notin> set h \<and> CHR '']'' \<notin> set h"

lemma plain_host_take: "plain_host h \<Longrightarrow> take 1 (h @ ys) \<noteq> ''[''"
  by (cases h) (auto simp: plain_host_def)

lemma join_plain: "plain_host h \<Longrightarrow> join_host_port h p = h @ '':'' @ p"
  by (simp add: join_host_port_def plain_host_def index_byte_None)

lemma split_plain: "plain_host h \<Longrightarrow> split_host_port h = Inl MissingPort"
  using last_index_byte_None [of "CHR '':''" h] by (simp add: split_host_port_def plain_host_def)

lemma split_join_plain:
  assumes h: "plain_host h" and p: "CHR '':'' \<notin> set p" "CHR ''['' \<notin> set p" "CHR '']'' \<notin> set p"
  shows "split_host_port (join_host_port h p) = Inr (h, p)"
proof -
  have "last_index_byte (CHR '':'') (h @ CHR '':'' # p) = Some (length h)"
    using p(1) by (rule last_index_byte_append)
  moreover have "index_byte (CHR '':'') h = None" using h by (simp add: plain_host_def index_byte_None)
  moreover have "index_byte (CHR ''['') (h @ CHR '':'' # p) = None" "index_byte (CHR '']'') (h @ CHR '':'' # p) = None"
    using h p by (auto simp: plain_host_def index_byte_None)
  ultimately show ?thesis using plain_host_take [OF h, of "CHR '':'' # p"]
    by (simp add: split_host_port_def join_plain [OF h] Let_def)
qed

end
