(* ===== verification/BusyClient.thy ===== *)
theory BusyClient
  imports GoNet Float64 Channels "HOL-Library.Multiset"
begin

text \<open>
  \<open>internal/busybar/client.go\<close>: the WebSocket client of the Busy Bar. Its state is the
  configuration, the connection status, the bounded channel of binary frames, the cancel function
  (none, or whether it was called), the active connection, the backoff delay, the overflow counter
  and whether \<open>closeOnce\<close> has run.

  \<open>run\<close> is a loop around \<open>connectAndSupervise\<close>; both are cut at the points where another
  goroutine can act (\<open>phase\<close>), each stretch between two points is a function of the state and of
  what the environment answered (clock, dial and read results, random number), and \<open>busy_step\<close>
  interleaves them with the consumer of frames, \<open>Start\<close>, \<open>Close\<close> and the cancellation of the
  parent context. The keepalive goroutine only cancels the session's context, which the loop sees
  as a failing read. A call of \<open>Close\<close> is three steps: it cancels, it waits for the worker, and it
  closes the channel, once. Random numbers are \<open>k / 2 ^ 53\<close>, as \<open>rand.Float64\<close> makes them.
\<close>

section \<open>Configuration\<close>

record busy_config =
  bc_host :: string
  bc_port :: int
  bc_ping_interval :: duration
  bc_read_timeout :: duration
  bc_initial_backoff :: duration
  bc_max_backoff :: duration
  bc_multiplier :: rat
  bc_buffer_size :: int

definition busy_default_config :: busy_config where
  "busy_default_config = \<lparr>bc_host = ''192.168.68.196'', bc_port = 80, bc_ping_interval = 10 * second,
     bc_read_timeout = 30 * second, bc_initial_backoff = 1 * second, bc_max_backoff = 60 * second,
     bc_multiplier = 3 / 2, bc_buffer_size = 100\<rparr>"

record link_status =
  ls_connected :: bool
  ls_reconnect_count :: int64
  ls_last_connected_at :: gtime
  ls_last_disconnected_at :: gtime

record busy_client =
  bb_cfg :: busy_config
  bb_status :: link_status
  bb_frames :: "string chan"
  bb_cancel :: "bool option"
  bb_stable_threshold :: duration
  bb_backoff_delay :: duration
  bb_active_conn :: bool
  bb_overflow_count :: int64
  bb_close_once :: bool

definition default_stable_threshold :: duration where
  "default_stable_threshold = 30 * second"

definition fill_defaults :: "busy_config \<Rightarrow> busy_config" where
  "fill_defaults cfg = (let d = busy_default_config in
     \<lparr>bc_host = (if bc_host cfg = '''' then bc_host d else bc_host cfg),
      bc_port = (if bc_port cfg \<le> 0 then bc_port d else bc_port cfg),
      bc_ping_interval = (if bc_ping_interval cfg \<le> 0 then bc_ping_interval d else bc_ping_interval cfg),
      bc_read_timeout = (if bc_read_timeout cfg \<le> 0 then bc_read_timeout d else bc_read_timeout cfg),
      bc_initial_backoff =
        (if bc_initial_backoff cfg \<le> 0 then bc_initial_backoff d else bc_initial_backoff cfg),
      bc_max_backoff = (if bc_max_backoff cfg \<le> 0 then bc_max_backoff d else bc_max_backoff cfg),
      bc_multiplier = (if bc_multiplier cfg \<le> 0 then bc_multiplier d else bc_multiplier cfg),
      bc_buffer_size = (if bc_buffer_size cfg \<le> 0 then bc_buffer_size d else bc_buffer_size cfg)\<rparr>)"

definition new_busy_client :: "busy_config \<Rightarrow> busy_client" where
  "new_busy_client config = (let cfg = fill_defaults config in
     \<lparr>bb_cfg = cfg,
      bb_status = \<lparr>ls_connected = False, ls_reconnect_count = 0, ls_last_connected_at = 0,
        ls_last_disconnected_at = 0\<rparr>,
      bb_frames = make_chan (nat (bc_buffer_size cfg)), bb_cancel = None,
      bb_stable_threshold = default_stable_threshold, bb_backoff_delay = bc_initial_backoff cfg,
      bb_active_conn = False, bb_overflow_count = 0, bb_close_once = False\<rparr>)"

section \<open>Backoff\<close>

type_synonym overflow = "rat \<Rightarrow> int"

text \<open>The package function; the method passes the configured maximum.\<close>

definition CalculateBackoff :: "overflow \<Rightarrow> rat \<Rightarrow> duration \<Rightarrow> duration \<Rightarrow> duration" where
  "CalculateBackoff ovf r current_backoff max_backoff =
     (let effective = (if max_backoff > 0 \<and> current_backoff > max_backoff then max_backoff else current_backoff)
      in if effective \<le> 0 then 0
         else f64_to_int64 ovf (f64 (r * f64 (of_int effective))))"

definition next_backoff :: "overflow \<Rightarrow> busy_config \<Rightarrow> duration \<Rightarrow> duration" where
  "next_backoff ovf cfg current_backoff =
     (let next = f64_to_int64 ovf (f64 (f64 (of_int current_backoff) * bc_multiplier cfg))
      in if next > bc_max_backoff cfg then bc_max_backoff cfg else next)"

section \<open>Endpoint\<close>

definition split_scheme :: "string \<Rightarrow> string \<times> string" where
  "split_scheme host =
     (if has_prefix host ''http://'' then (''ws'', trim_prefix host ''http://'')
      else if has_prefix host ''https://'' then (''wss'', trim_prefix host ''https://'')
      else if has_prefix host ''ws://'' then (''ws'', trim_prefix host ''ws://'')
      else if has_prefix host ''wss://'' then (''wss'', trim_prefix host ''wss://'')
      else (''ws'', host))"

definition endpoint_host_port :: "string \<Rightarrow> int \<Rightarrow> string" where
  "endpoint_host_port trimmed port = (case split_host_port trimmed of
     Inr (h, p) \<Rightarrow> if port > 0 then join_host_port h (itoa port) else join_host_port h p
   | Inl _ \<Rightarrow> if port > 0 then join_host_port trimmed (itoa port) else trimmed)"

definition endpoint_url :: "busy_config \<Rightarrow> string" where
  "endpoint_url cfg = (case split_scheme (bc_host cfg) of (scheme, rest) \<Rightarrow>
     (let t = trim_right (CHR ''/'') rest;
          trimmed = (case index_byte (CHR ''/'') t of Some idx \<Rightarrow> take idx t | None \<Rightarrow> t)
      in scheme @ ''://'' @ endpoint_host_port trimmed (bc_port cfg) @ ''/api/status/ws''))"

section \<open>Lifecycle and sessions\<close>

definition busy_start :: "busy_client \<Rightarrow> string + busy_client" where
  "busy_start c =
     (if bb_cancel c \<noteq> None then Inl ''client already started'' else Inr (c\<lparr>bb_cancel := Some False\<rparr>))"

text \<open>\<open>closeOnce.Do\<close>: the first call closes the channel, later ones do nothing.\<close>

definition close_frames_once :: "busy_client \<Rightarrow> busy_client" where
  "close_frames_once c =
     (if bb_close_once c then c
      else c\<lparr>bb_close_once := True,
        bb_frames := (case close_chan (bb_frames c) of Some ch \<Rightarrow> ch | None \<Rightarrow> bb_frames c)\<rparr>)"

text \<open>\<open>Close\<close> up to \<open>wg.Wait\<close>: it calls the cancel function if there is one.\<close>

definition close_request :: "busy_client \<Rightarrow> busy_client" where
  "close_request c = c\<lparr>bb_cancel := map_option (\<lambda>_. True) (bb_cancel c)\<rparr>"

definition session_up :: "gtime \<Rightarrow> busy_client \<Rightarrow> busy_client" where
  "session_up now c = c\<lparr>bb_active_conn := True, bb_status := (bb_status c)\<lparr>ls_connected := True,
     ls_last_connected_at := now\<rparr>\<rparr>"

datatype message_type = MessageText | MessageBinary | MessageOther int

text \<open>One message of \<open>readLoop\<close>; \<open>None\<close> is the panic of a send on a closed channel.\<close>

definition read_message :: "message_type \<Rightarrow> string \<Rightarrow> busy_client \<Rightarrow> busy_client option" where
  "read_message typ payload c = (case typ of
     MessageBinary \<Rightarrow> (case try_send payload (bb_frames c) of
        Sent ch \<Rightarrow> Some (c\<lparr>bb_frames := ch\<rparr>)
      | WouldBlock \<Rightarrow> Some (c\<lparr>bb_overflow_count := bb_overflow_count c + 1\<rparr>)
      | SendPanic \<Rightarrow> None)
   | MessageText \<Rightarrow> Some c
   | MessageOther _ \<Rightarrow> Some c)"

definition mark_disconnected :: "gtime \<Rightarrow> busy_client \<Rightarrow> busy_client" where
  "mark_disconnected now c = c\<lparr>bb_status := (bb_status c)\<lparr>ls_connected := False,
     ls_last_disconnected_at := now, ls_reconnect_count := ls_reconnect_count (bb_status c) + 1\<rparr>\<rparr>"

definition session_uptime :: "link_status \<Rightarrow> gtime \<Rightarrow> gtime \<Rightarrow> string option \<Rightarrow> duration" where
  "session_uptime st connect_start disconnect_time err =
     (if ls_connected st \<and> ls_last_connected_at st \<noteq> 0
      then time_sub disconnect_time (ls_last_connected_at st)
      else if err = None then time_sub disconnect_time connect_start else 0)"

text \<open>
  The body of \<open>run\<close> after \<open>connectFn\<close> returned: \<open>None\<close> when the context is done, else the
  time to sleep and the next backoff.
\<close>

definition after_session :: "overflow \<Rightarrow> rat \<Rightarrow> bool \<Rightarrow> gtime \<Rightarrow> gtime \<Rightarrow> string option \<Rightarrow> duration
    \<Rightarrow> busy_client \<Rightarrow> busy_client \<times> (duration \<times> duration) option" where
  "after_session ovf r ctx_done connect_start now err backoff c =
     (let c1 = mark_disconnected now c in
      if ctx_done then (c1, None)
      else let threshold = (if bb_stable_threshold c \<le> 0 then default_stable_threshold
                            else bb_stable_threshold c);
               b = (if session_uptime (bb_status c) connect_start now err \<ge> threshold
                    then bc_initial_backoff (bb_cfg c) else backoff)
           in (c1\<lparr>bb_backoff_delay := b\<rparr>,
               Some (CalculateBackoff ovf r b (bc_max_backoff (bb_cfg c)), next_backoff ovf (bb_cfg c) b)))"

datatype phase = Idle | LoopTop | Connecting gtime | Reading gtime | Ended gtime "string option"
  | Sleeping duration | Exited

record busy_sys =
  bz_client :: busy_client
  bz_phase :: phase
  bz_closing :: nat
  bz_waited :: nat
  bz_up_since :: "gtime option"
  bz_backoff :: duration
  bz_parent_done :: bool
  bz_arrived :: "string list"
  bz_refused :: "string list"
  bz_consumed :: "string list"
  bz_sleeps :: "duration list"
  bz_closed_early :: bool
  bz_panicked :: bool

definition busy_ctx_done :: "busy_sys \<Rightarrow> bool" where
  "busy_ctx_done s \<longleftrightarrow> bz_parent_done s \<or> bb_cancel (bz_client s) = Some True"

text \<open>
  \<open>panicked\<close> stops the process, so a step needs a state without one. \<open>closing\<close> and \<open>waited\<close> are the
  numbers of calls of \<open>Close\<close> that are before \<open>wg.Wait\<close> and between \<open>wg.Wait\<close> and \<open>closeOnce\<close>. The ghost
  fields record when the connection of the present session was made, the binary frames that arrived,
  those refused, those the consumer got, the sleeps, and whether \<open>Start\<close> came when the channel was
  closed or a \<open>Close\<close> had nothing more to wait for.
\<close>

inductive busy_step :: "overflow \<Rightarrow> busy_sys \<Rightarrow> busy_sys \<Rightarrow> bool" for ovf where
  start: "\<not> bz_panicked s \<Longrightarrow> busy_start (bz_client s) = Inr c \<Longrightarrow>
     busy_step ovf s (s\<lparr>bz_client := c, bz_phase := LoopTop, bz_backoff := bc_initial_backoff (bb_cfg c),
       bz_closed_early := bb_close_once c \<or> 0 < bz_waited s\<rparr>)"
| parent_cancel: "\<not> bz_panicked s \<Longrightarrow> busy_step ovf s (s\<lparr>bz_parent_done := True\<rparr>)"
| close: "\<not> bz_panicked s \<Longrightarrow>
     busy_step ovf s (s\<lparr>bz_client := close_request (bz_client s), bz_closing := bz_closing s + 1\<rparr>)"
| close_wait: "\<not> bz_panicked s \<Longrightarrow> 0 < bz_closing s \<Longrightarrow> bz_phase s = Idle \<or> bz_phase s = Exited \<Longrightarrow>
     busy_step ovf s (s\<lparr>bz_closing := bz_closing s - 1, bz_waited := bz_waited s + 1\<rparr>)"
| close_done: "\<not> bz_panicked s \<Longrightarrow> 0 < bz_waited s \<Longrightarrow>
     busy_step ovf s (s\<lparr>bz_client := close_frames_once (bz_client s), bz_waited := bz_waited s - 1\<rparr>)"
| consume: "\<not> bz_panicked s \<Longrightarrow> try_recv (bb_frames (bz_client s)) = Received f ch \<Longrightarrow>
     busy_step ovf s (s\<lparr>bz_client := (bz_client s)\<lparr>bb_frames := ch\<rparr>, bz_consumed := bz_consumed s @ [f]\<rparr>)"
| loop_exit: "\<not> bz_panicked s \<Longrightarrow> bz_phase s = LoopTop \<Longrightarrow> busy_ctx_done s \<Longrightarrow>
     busy_step ovf s (s\<lparr>bz_client := close_frames_once (bz_client s), bz_phase := Exited\<rparr>)"
| connect: "\<not> bz_panicked s \<Longrightarrow> bz_phase s = LoopTop \<Longrightarrow> \<not> busy_ctx_done s \<Longrightarrow>
     busy_step ovf s (s\<lparr>bz_phase := Connecting now, bz_up_since := None\<rparr>)"
| connect_failed: "\<not> bz_panicked s \<Longrightarrow> bz_phase s = Connecting t \<Longrightarrow>
     busy_step ovf s (s\<lparr>bz_phase := Ended t (Some err)\<rparr>)"
| connected: "\<not> bz_panicked s \<Longrightarrow> bz_phase s = Connecting t \<Longrightarrow>
     busy_step ovf s (s\<lparr>bz_client := session_up now (bz_client s), bz_phase := Reading t,
       bz_up_since := Some now\<rparr>)"
| read: "\<not> bz_panicked s \<Longrightarrow> bz_phase s = Reading t \<Longrightarrow> read_message typ payload (bz_client s) = Some c \<Longrightarrow>
     busy_step ovf s (s\<lparr>bz_client := c,
       bz_arrived := (if typ = MessageBinary then bz_arrived s @ [payload] else bz_arrived s),
       bz_refused := (if bb_overflow_count c \<noteq> bb_overflow_count (bz_client s)
         then bz_refused s @ [payload] else bz_refused s)\<rparr>)"
| read_panic: "\<not> bz_panicked s \<Longrightarrow> bz_phase s = Reading t \<Longrightarrow> read_message typ payload (bz_client s) = None \<Longrightarrow>
     busy_step ovf s (s\<lparr>bz_panicked := True\<rparr>)"
| read_failed: "\<not> bz_panicked s \<Longrightarrow> bz_phase s = Reading t \<Longrightarrow>
     busy_step ovf s (s\<lparr>bz_client := (bz_client s)\<lparr>bb_active_conn := False\<rparr>, bz_phase := Ended t (Some err)\<rparr>)"
| ended_exit: "\<not> bz_panicked s \<Longrightarrow> bz_phase s = Ended t err \<Longrightarrow>
     after_session ovf r (busy_ctx_done s) t now err (bz_backoff s) (bz_client s) = (c, None) \<Longrightarrow>
     busy_step ovf s (s\<lparr>bz_client := close_frames_once c, bz_phase := Exited\<rparr>)"
| ended_sleep: "\<not> bz_panicked s \<Longrightarrow> bz_phase s = Ended t err \<Longrightarrow> 0 \<le> r \<Longrightarrow> r < 1 \<Longrightarrow>
     after_session ovf r (busy_ctx_done s) t now err (bz_backoff s) (bz_client s) = (c, Some (d, b)) \<Longrightarrow>
     busy_step ovf s (s\<lparr>bz_client := c, bz_phase := Sleeping d, bz_backoff := b, bz_sleeps := bz_sleeps s @ [d]\<rparr>)"
| wake: "\<not> bz_panicked s \<Longrightarrow> bz_phase s = Sleeping d \<Longrightarrow> busy_step ovf s (s\<lparr>bz_phase := LoopTop\<rparr>)"
| wake_cancelled: "\<not> bz_panicked s \<Longrightarrow> bz_phase s = Sleeping d \<Longrightarrow> busy_ctx_done s \<Longrightarrow>
     busy_step ovf s (s\<lparr>bz_client := close_frames_once (bz_client s), bz_phase := Exited\<rparr>)"

definition busy_init :: "busy_config \<Rightarrow> busy_sys" where
  "busy_init cfg = \<lparr>bz_client = new_busy_client cfg, bz_phase = Idle, bz_closing = 0, bz_waited = 0,
     bz_up_since = None, bz_backoff = 0,
     bz_parent_done = False, bz_arrived = [], bz_refused = [], bz_consumed = [], bz_sleeps = [],
     bz_closed_early = False, bz_panicked = False\<rparr>"

inductive busy_reach :: "overflow \<Rightarrow> busy_config \<Rightarrow> busy_sys \<Rightarrow> bool" for ovf cfg where
  init: "busy_reach ovf cfg (busy_init cfg)"
| step: "busy_reach ovf cfg s \<Longrightarrow> busy_step ovf s t \<Longrightarrow> busy_reach ovf cfg t"

section \<open>Facts on the backoff\<close>

definition backoff_exact :: "busy_config \<Rightarrow> bool" where
  "backoff_exact cfg \<longleftrightarrow> 0 < bc_initial_backoff cfg \<and> bc_initial_backoff cfg < 2 ^ 53
     \<and> 0 < bc_max_backoff cfg \<and> bc_max_backoff cfg < 2 ^ 53 \<and> 0 < bc_multiplier cfg
     \<and> of_int (max (bc_initial_backoff cfg) (bc_max_backoff cfg)) * bc_multiplier cfg \<le> 2 ^ 53 - 1"

lemma to_int64_small: "0 \<le> q \<Longrightarrow> q \<le> of_int n \<Longrightarrow> n < 2 ^ 53 \<Longrightarrow> f64_to_int64 ovf q = f64_trunc q"
  using f64_trunc_le [of q n] f64_trunc_nonneg [of q] by (simp add: f64_to_int64_def in_int64_def go_arith)

lemma CalculateBackoff_range:
  assumes "0 \<le> r" "r < 1" "0 < m" "m < 2 ^ 53"
  shows "0 \<le> CalculateBackoff ovf r b m \<and> CalculateBackoff ovf r b m \<le> max 0 (min b m)"
proof (cases "min b m \<le> 0")
  case True
  then show ?thesis using assms(3) by (auto simp: CalculateBackoff_def Let_def)
next
  case False
  define e where "e = min b m"
  have e: "0 < e" "e < 2 ^ 53" using False assms(4) by (auto simp: e_def)
  have fe: "f64 (of_int e) = of_int e" using e by (intro f64_int) simp
  have q: "0 \<le> r * of_int e" "r * of_int e \<le> of_int e"
    using assms(1,2) e(1) by (simp_all add: mult_left_le_one_le)
  have f: "0 \<le> f64 (r * of_int e)" "f64 (r * of_int e) \<le> of_int e"
    using f64_nonneg [OF q(1)] f64_le_int [OF q e(2)] by auto
  have "CalculateBackoff ovf r b m = f64_trunc (f64 (r * of_int e))"
    using False assms(3) fe to_int64_small [OF f e(2)] by (auto simp: CalculateBackoff_def Let_def e_def min_def)
  then show ?thesis using f64_trunc_nonneg [OF f(1)] f64_trunc_le [OF f(2) f(1)] e(1) by (simp add: e_def)
qed

lemma next_backoff_value:
  assumes "backoff_exact cfg" "0 \<le> b" "b \<le> max (bc_initial_backoff cfg) (bc_max_backoff cfg)"
  shows "next_backoff ovf cfg b = min (bc_max_backoff cfg) (f64_trunc (f64 (of_int b * bc_multiplier cfg)))"
    and "0 \<le> of_int b * bc_multiplier cfg" "of_int b * bc_multiplier cfg \<le> of_int (2 ^ 53 - 1)"
proof -
  have fb: "f64 (of_int b) = of_int b" using assms by (intro f64_int) (auto simp: backoff_exact_def)
  have m: "0 \<le> bc_multiplier cfg" using assms(1) by (simp add: backoff_exact_def)
  have le: "of_int b * bc_multiplier cfg \<le> of_int (max (bc_initial_backoff cfg) (bc_max_backoff cfg)) * bc_multiplier cfg"
    using assms(3) m by (intro mult_right_mono) (simp_all only: of_int_le_iff)
  show q: "0 \<le> of_int b * bc_multiplier cfg" using assms(2) m by simp
  show l: "of_int b * bc_multiplier cfg \<le> of_int (2 ^ 53 - 1)"
    using order_trans [OF le] assms(1) by (simp add: backoff_exact_def del: of_int_max)
  have "f64_to_int64 ovf (f64 (of_int b * bc_multiplier cfg)) = f64_trunc (f64 (of_int b * bc_multiplier cfg))"
    using f64_nonneg [OF q] f64_le_int [OF q l] by (intro to_int64_small [where n = "2 ^ 53 - 1"]) simp_all
  then show "next_backoff ovf cfg b = min (bc_max_backoff cfg) (f64_trunc (f64 (of_int b * bc_multiplier cfg)))"
    by (simp add: next_backoff_def Let_def fb min_def)
qed

lemma next_backoff_range:
  assumes "backoff_exact cfg" "0 \<le> b" "b \<le> max (bc_initial_backoff cfg) (bc_max_backoff cfg)"
  shows "0 \<le> next_backoff ovf cfg b \<and> next_backoff ovf cfg b \<le> bc_max_backoff cfg"
  using next_backoff_value [OF assms] f64_trunc_nonneg [OF f64_nonneg [OF next_backoff_value(2) [OF assms]]] assms(1)
  by (simp add: backoff_exact_def)

text \<open>
  C26: without a stable connection the backoff never shrinks, never passes the maximum, and with
  the default multiplier it is exactly one and a half times the last, rounded down, up to the cap:
  the floating-point product loses nothing.
\<close>

theorem next_backoff_schedule:
  assumes "backoff_exact cfg" "0 \<le> b" "b \<le> bc_max_backoff cfg" "1 \<le> bc_multiplier cfg"
  shows "b \<le> next_backoff ovf cfg b \<and> next_backoff ovf cfg b \<le> bc_max_backoff cfg
    \<and> (bc_multiplier cfg = 3 / 2 \<and> bc_max_backoff cfg < 2 ^ 51 \<longrightarrow>
         next_backoff ovf cfg b = min (bc_max_backoff cfg) (3 * b div 2))"
proof -
  have bm: "b \<le> max (bc_initial_backoff cfg) (bc_max_backoff cfg)" using assms(3) by simp
  note nv = next_backoff_value [OF assms(1,2) bm]
  have "of_int b * 1 \<le> of_int b * bc_multiplier cfg" using assms(2,4) by (intro mult_left_mono) auto
  then have ge: "of_int b \<le> of_int b * bc_multiplier cfg" by simp
  have "of_int b * bc_multiplier cfg < 2 ^ 53" using nv(3) by simp
  then have "of_int b \<le> f64 (of_int b * bc_multiplier cfg)" using ge assms(2) by (intro f64_ge_int) auto
  then have "b \<le> f64_trunc (f64 (of_int b * bc_multiplier cfg))" using assms(2) by (rule f64_trunc_ge)
  then have grow: "b \<le> next_backoff ovf cfg b" using nv(1) assms(3) by simp
  have "next_backoff ovf cfg b = min (bc_max_backoff cfg) (3 * b div 2)"
    if m: "bc_multiplier cfg = 3 / 2" "bc_max_backoff cfg < 2 ^ 51"
  proof -
    have "f64 (of_int (3 * b) / 2 ^ 1) = of_int (3 * b) / 2 ^ 1"
      using assms(2,3) m(2) by (intro f64_exact) auto
    moreover have "of_int b * bc_multiplier cfg = of_int (3 * b) / 2 ^ 1" by (simp add: m(1))
    moreover have "f64_trunc (of_int (3 * b) / 2 ^ 1) = 3 * b div 2"
      using assms(2) floor_divide_of_int_eq [of "3 * b" 2, where ?'a = rat] by (simp add: f64_trunc_def)
    ultimately show ?thesis using nv(1) [of ovf] by (simp only:)
  qed
  then show ?thesis using grow nv(1) by simp
qed

lemma default_backoff_exact: "backoff_exact busy_default_config"
  by (simp add: backoff_exact_def busy_default_config_def go_arith)

lemma next_backoff_schedule_witness:
  "next_backoff (\<lambda>_. 0) busy_default_config (1 * second) = 1500 * millisecond
     \<and> next_backoff (\<lambda>_. 0) busy_default_config (50 * second) = 60 * second"
proof -
  let ?ovf = "\<lambda>_. 0"
  have "1 * second \<le> bc_max_backoff busy_default_config" "50 * second \<le> bc_max_backoff busy_default_config"
      "0 \<le> 1 * second" "0 \<le> 50 * second" "1 \<le> bc_multiplier busy_default_config"
    by (simp_all add: busy_default_config_def go_arith)
  then have "next_backoff ?ovf busy_default_config (1 * second) = min (60 * second) (3 * (1 * second) div 2)"
      "next_backoff ?ovf busy_default_config (50 * second) = min (60 * second) (3 * (50 * second) div 2)"
    using next_backoff_schedule [OF default_backoff_exact, of "1 * second" ?ovf]
      next_backoff_schedule [OF default_backoff_exact, of "50 * second" ?ovf]
    by (simp_all add: busy_default_config_def go_arith)
  then show ?thesis by (simp add: go_arith)
qed

section \<open>Reachable states\<close>

definition busy_inv :: "busy_config \<Rightarrow> busy_sys \<Rightarrow> bool" where
  "busy_inv cfg s \<longleftrightarrow> (let c = bz_client s in
     bb_cfg c = cfg \<and> chan_wf (bb_frames c) \<and> ch_cap (bb_frames c) = nat (bc_buffer_size cfg)
     \<and> ch_closed (bb_frames c) = bb_close_once c
     \<and> (bb_cancel c = None \<longleftrightarrow> bz_phase s = Idle)
     \<and> (bb_active_conn c \<longleftrightarrow> (\<exists>t. bz_phase s = Reading t))
     \<and> (ls_connected (bb_status c) \<longrightarrow> (\<exists>t. bz_phase s = Reading t) \<or> (\<exists>t e. bz_phase s = Ended t e))
     \<and> (\<not> bz_closed_early s \<longrightarrow> \<not> bz_panicked s
          \<and> (bb_close_once c \<or> 0 < bz_waited s \<longrightarrow> bz_phase s = Idle \<or> bz_phase s = Exited)))"

definition frames_inv :: "busy_sys \<Rightarrow> bool" where
  "frames_inv s \<longleftrightarrow>
     subseq (bz_consumed s @ ch_buf (bb_frames (bz_client s))) (bz_arrived s)
     \<and> mset (bz_arrived s) = mset (bz_consumed s @ ch_buf (bb_frames (bz_client s))) + mset (bz_refused s)
     \<and> bb_overflow_count (bz_client s) = of_nat (length (bz_refused s))"

lemma close_frames_once_simps [simp]:
  "bb_cfg (close_frames_once c) = bb_cfg c" "bb_cancel (close_frames_once c) = bb_cancel c"
  "bb_active_conn (close_frames_once c) = bb_active_conn c" "bb_status (close_frames_once c) = bb_status c"
  "bb_close_once (close_frames_once c)" "ch_buf (bb_frames (close_frames_once c)) = ch_buf (bb_frames c)"
  "ch_cap (bb_frames (close_frames_once c)) = ch_cap (bb_frames c)"
  "bb_stable_threshold (close_frames_once c) = bb_stable_threshold c"
  "bb_overflow_count (close_frames_once c) = bb_overflow_count c"
  by (simp_all add: close_frames_once_def close_chan_def split: option.split)

lemma close_frames_once_closed:
  "ch_closed (bb_frames c) = bb_close_once c \<Longrightarrow> ch_closed (bb_frames (close_frames_once c))"
  by (simp add: close_frames_once_def close_chan_def)

lemma after_session_simps:
  assumes "after_session ovf r done t now err b c = (c', res)"
  shows "bb_cfg c' = bb_cfg c" "bb_cancel c' = bb_cancel c" "bb_active_conn c' = bb_active_conn c"
    "bb_frames c' = bb_frames c" "bb_close_once c' = bb_close_once c" "\<not> ls_connected (bb_status c')"
    "bb_overflow_count c' = bb_overflow_count c" "bb_stable_threshold c' = bb_stable_threshold c"
  using assms by (auto simp: after_session_def mark_disconnected_def Let_def split: if_splits)

lemma read_message_cases:
  assumes "read_message typ payload c = Some c'"
  shows "(typ \<noteq> MessageBinary \<and> c' = c)
    \<or> (typ = MessageBinary \<and> \<not> ch_closed (bb_frames c) \<and> length (ch_buf (bb_frames c)) < ch_cap (bb_frames c)
        \<and> c' = c\<lparr>bb_frames := (bb_frames c)\<lparr>ch_buf := ch_buf (bb_frames c) @ [payload]\<rparr>\<rparr>)
    \<or> (typ = MessageBinary \<and> \<not> ch_closed (bb_frames c) \<and> length (ch_buf (bb_frames c)) \<ge> ch_cap (bb_frames c)
        \<and> c' = c\<lparr>bb_overflow_count := bb_overflow_count c + 1\<rparr>)"
  using assms by (auto simp: read_message_def try_send_def split: message_type.splits if_splits)

lemma read_message_panic:
  "read_message typ payload c = None \<longleftrightarrow> typ = MessageBinary \<and> ch_closed (bb_frames c)"
  by (auto simp: read_message_def try_send_def split: message_type.splits)

lemma busy_inv_init: "busy_inv (fill_defaults config) (busy_init config)"
  by (simp add: busy_inv_def busy_init_def new_busy_client_def chan_wf_def Let_def)

lemma busy_step_inv:
  assumes "busy_step ovf s t" "busy_inv cfg s"
  shows "busy_inv cfg t"
  using assms
proof (induction rule: busy_step.induct)
  case (start s c)
  then show ?case by (auto simp: busy_inv_def busy_start_def Let_def split: if_splits)
next
  case (close_done s)
  then show ?case by (auto simp: busy_inv_def close_frames_once_closed chan_wf_def Let_def)
next
  case (consume s f ch)
  then show ?case by (auto simp: busy_inv_def try_recv_Received chan_wf_def Let_def)
next
  case (loop_exit s)
  then show ?case by (auto simp: busy_inv_def close_frames_once_closed chan_wf_def Let_def)
next
  case (read s t ty payload c)
  then show ?case using read_message_cases [OF read(3)] by (auto simp: busy_inv_def chan_wf_def Let_def)
next
  case (read_panic s t ty payload)
  then show ?case by (auto simp: busy_inv_def read_message_panic Let_def)
next
  case (ended_exit s t err r now c)
  then show ?case using after_session_simps [OF ended_exit(3)]
    by (auto simp: busy_inv_def close_frames_once_closed chan_wf_def Let_def)
next
  case (ended_sleep s t err r now c d b)
  then show ?case using after_session_simps [OF ended_sleep(5)] by (auto simp: busy_inv_def Let_def)
next
  case (wake_cancelled s d)
  then show ?case by (auto simp: busy_inv_def close_frames_once_closed chan_wf_def Let_def)
qed (auto simp: busy_inv_def close_request_def session_up_def Let_def)

lemma busy_reach_inv: "busy_reach ovf config s \<Longrightarrow> busy_inv (fill_defaults config) s"
  by (induction rule: busy_reach.induct) (auto intro: busy_inv_init busy_step_inv)

lemma frames_inv_init: "frames_inv (busy_init config)"
  by (simp add: frames_inv_def busy_init_def new_busy_client_def Let_def)

lemma frames_step_inv:
  assumes "busy_step ovf s t" "frames_inv s"
  shows "frames_inv t"
  using assms
proof (induction rule: busy_step.induct)
  case (start s c)
  then show ?case by (auto simp: frames_inv_def busy_start_def split: if_splits)
next
  case (consume s f ch)
  then show ?case by (auto simp: frames_inv_def try_recv_Received)
next
  case (read s t ty payload c)
  from read(4) have a: "subseq (bz_consumed s @ ch_buf (bb_frames (bz_client s))) (bz_arrived s @ [payload])"
    by (simp add: frames_inv_def list_emb_prefix)
  have b: "subseq ((bz_consumed s @ ch_buf (bb_frames (bz_client s))) @ [payload]) (bz_arrived s @ [payload])"
    using read(4) by (simp add: frames_inv_def del: append_assoc)
  show ?case using read_message_cases [OF read(3)] a b read(4) by (auto simp: frames_inv_def)
next
  case (ended_exit s t err r now c)
  then show ?case using after_session_simps [OF ended_exit(3)] by (auto simp: frames_inv_def)
next
  case (ended_sleep s t err r now c d b)
  then show ?case using after_session_simps [OF ended_sleep(5)] by (auto simp: frames_inv_def)
qed (auto simp: frames_inv_def close_request_def session_up_def)

lemma busy_reach_frames: "busy_reach ovf config s \<Longrightarrow> frames_inv s"
  by (induction rule: busy_reach.induct) (auto intro: frames_inv_init frames_step_inv)

definition sleeps_inv :: "busy_config \<Rightarrow> busy_sys \<Rightarrow> bool" where
  "sleeps_inv cfg s \<longleftrightarrow> bb_cfg (bz_client s) = cfg
     \<and> 0 \<le> bz_backoff s \<and> bz_backoff s \<le> max (bc_initial_backoff cfg) (bc_max_backoff cfg)
     \<and> (\<forall>d \<in> set (bz_sleeps s). 0 \<le> d \<and> d \<le> bc_max_backoff cfg)"

lemma after_session_backoff:
  assumes "after_session ovf r done t now err b c = (c', Some (d, b'))" "0 \<le> r" "r < 1"
    and "backoff_exact (bb_cfg c)" "0 \<le> b" "b \<le> max (bc_initial_backoff (bb_cfg c)) (bc_max_backoff (bb_cfg c))"
  shows "0 \<le> d \<and> d \<le> bc_max_backoff (bb_cfg c) \<and> 0 \<le> b' \<and> b' \<le> bc_max_backoff (bb_cfg c)"
proof -
  obtain e where e: "e = b \<or> e = bc_initial_backoff (bb_cfg c)"
      "d = CalculateBackoff ovf r e (bc_max_backoff (bb_cfg c))" "b' = next_backoff ovf (bb_cfg c) e"
    using assms(1) by (auto simp: after_session_def Let_def split: if_splits)
  have i: "0 \<le> e" "e \<le> max (bc_initial_backoff (bb_cfg c)) (bc_max_backoff (bb_cfg c))"
    using e(1) assms(4-6) by (auto simp: backoff_exact_def)
  have "0 < bc_max_backoff (bb_cfg c)" "bc_max_backoff (bb_cfg c) < 2 ^ 53"
    using assms(4) by (auto simp: backoff_exact_def)
  from CalculateBackoff_range [OF assms(2,3) this, of ovf e] next_backoff_range [OF assms(4) i, of ovf] i this
  show ?thesis unfolding e(2,3) by (auto simp: max_def min_def split: if_splits)
qed

lemma sleeps_step_inv:
  assumes "busy_step ovf s t" "backoff_exact cfg" "sleeps_inv cfg s"
  shows "sleeps_inv cfg t"
  using assms
proof (induction rule: busy_step.induct)
  case (start s c)
  then show ?case by (auto simp: sleeps_inv_def busy_start_def backoff_exact_def split: if_splits)
next
  case (read s t ty payload c)
  then show ?case using read_message_cases [OF read(3)] by (auto simp: sleeps_inv_def)
next
  case (ended_exit s t err r now c)
  then show ?case using after_session_simps [OF ended_exit(3)] by (auto simp: sleeps_inv_def)
next
  case (ended_sleep s t err r now c d b)
  from after_session_backoff [OF ended_sleep(5,3,4)] ended_sleep(6,7) after_session_simps(1) [OF ended_sleep(5)]
  show ?case by (auto simp: sleeps_inv_def)
qed (auto simp: sleeps_inv_def close_request_def session_up_def)

lemma busy_reach_sleeps:
  "busy_reach ovf config s \<Longrightarrow> backoff_exact (fill_defaults config) \<Longrightarrow> sleeps_inv (fill_defaults config) s"
proof (induction rule: busy_reach.induct)
  case init
  then show ?case by (simp add: sleeps_inv_def busy_init_def new_busy_client_def backoff_exact_def le_max_iff_disj Let_def)
qed (auto intro: sleeps_step_inv)

text \<open>What the loop knows of the present session.\<close>

fun session_fits :: "phase \<Rightarrow> link_status \<Rightarrow> gtime option \<Rightarrow> bool" where
  "session_fits (Reading t) st up \<longleftrightarrow> ls_connected st \<and> up = Some (ls_last_connected_at st)"
| "session_fits (Ended t err) st up \<longleftrightarrow>
     err \<noteq> None \<and> up = (if ls_connected st then Some (ls_last_connected_at st) else None)"
| "session_fits (Connecting t) st up \<longleftrightarrow> \<not> ls_connected st \<and> up = None"
| "session_fits ph st up \<longleftrightarrow> \<not> ls_connected st"

definition session_inv :: "busy_sys \<Rightarrow> bool" where
  "session_inv s \<longleftrightarrow> (let c = bz_client s in
     bb_stable_threshold c = default_stable_threshold \<and> (bb_cancel c = None \<longrightarrow> bz_phase s = Idle)
     \<and> session_fits (bz_phase s) (bb_status c) (bz_up_since s))"

lemma after_session_result:
  assumes "after_session ovf r ctx_done connect_start now err b c = (c', Some (d, b'))"
    and "bb_stable_threshold c = 30 * second"
  shows "\<not> ctx_done
    \<and> bb_backoff_delay c' = (if 30 * second \<le> session_uptime (bb_status c) connect_start now err
         then bc_initial_backoff (bb_cfg c) else b)
    \<and> d = CalculateBackoff ovf r (bb_backoff_delay c') (bc_max_backoff (bb_cfg c))
    \<and> b' = next_backoff ovf (bb_cfg c) (bb_backoff_delay c')
    \<and> \<not> ls_connected (bb_status c') \<and> ls_last_disconnected_at (bb_status c') = now
    \<and> ls_reconnect_count (bb_status c') = ls_reconnect_count (bb_status c) + 1"
  using assms by (auto simp: after_session_def mark_disconnected_def second_def Let_def split: if_splits)

lemma session_step_inv:
  assumes "busy_step ovf s t" "session_inv s"
  shows "session_inv t"
  using assms
proof (induction rule: busy_step.induct)
  case (start s c)
  then show ?case by (auto simp: session_inv_def busy_start_def Let_def split: if_splits)
next
  case (read s t ty payload c)
  then show ?case using read_message_cases [OF read(3)] by (auto simp: session_inv_def Let_def)
next
  case (ended_exit s t err r now c)
  then show ?case using after_session_simps [OF ended_exit(3)] by (simp add: session_inv_def Let_def)
next
  case (ended_sleep s t err r now c d b)
  then show ?case using after_session_simps [OF ended_sleep(5)] by (simp add: session_inv_def Let_def)
qed (simp_all add: session_inv_def close_request_def session_up_def Let_def)

lemma busy_reach_session: "busy_reach ovf config s \<Longrightarrow> session_inv s"
proof (induction rule: busy_reach.induct)
  case init
  then show ?case by (simp add: session_inv_def busy_init_def new_busy_client_def Let_def)
qed (rule session_step_inv)

section \<open>Correctness\<close>

text \<open>
  C24: whatever the connections do, every sleep of the reconnection loop is between zero and
  \<open>MaxBackoff\<close>, when the configured durations are below \<open>2 ^ 53\<close> nanoseconds.
\<close>

theorem reconnect_sleeps_bounded:
  assumes "busy_reach ovf config s" "backoff_exact (fill_defaults config)"
  shows "\<forall>d \<in> set (bz_sleeps s). 0 \<le> d \<and> d \<le> bc_max_backoff (fill_defaults config)"
  using busy_reach_sleeps [OF assms] by (simp add: sleeps_inv_def)

text \<open>
  C25: the backoff is reset exactly after a stable connection. In every reachable state, when a
  session ended and the loop goes to sleep, the delay is the initial backoff if the session's
  connection was made and was then up for at least thirty seconds, and the delay computed before
  otherwise: the time spent dialling does not count. The next delay grows from that one, the sleep is
  a random part of it, and the client is marked disconnected with one more reconnection counted.
\<close>

theorem backoff_reset_only_when_stable:
  assumes "busy_reach ovf config s" "busy_step ovf s t"
    and "bz_phase s = Ended connect_start err" "bz_phase t = Sleeping d"
  shows "let c = bz_client s; c' = bz_client t; cfg = fill_defaults config;
      now = ls_last_disconnected_at (bb_status c');
      stable = (case bz_up_since s of None \<Rightarrow> False
        | Some up \<Rightarrow> up \<noteq> 0 \<and> 30 * second \<le> time_sub now up);
      delay = (if stable then bc_initial_backoff cfg else bz_backoff s) in
    bb_backoff_delay c' = delay \<and> bz_backoff t = next_backoff ovf cfg delay
    \<and> (\<exists>r. 0 \<le> r \<and> r < 1 \<and> d = CalculateBackoff ovf r delay (bc_max_backoff cfg))
    \<and> bz_sleeps t = bz_sleeps s @ [d] \<and> \<not> busy_ctx_done s
    \<and> \<not> ls_connected (bb_status c')
    \<and> ls_reconnect_count (bb_status c') = ls_reconnect_count (bb_status c) + 1"
proof -
  have c: "bb_cfg (bz_client s) = fill_defaults config"
    using busy_reach_inv [OF assms(1)] by (simp add: busy_inv_def Let_def)
  from assms(2-4) obtain r now b where r: "0 \<le> r" "r < 1"
    and a: "after_session ovf r (busy_ctx_done s) connect_start now err (bz_backoff s) (bz_client s)
      = (bz_client t, Some (d, b))" "bz_backoff t = b" "bz_sleeps t = bz_sleeps s @ [d]"
    by (cases rule: busy_step.cases) auto
  have i: "bb_stable_threshold (bz_client s) = 30 * second" "err \<noteq> None"
      "bz_up_since s = (if ls_connected (bb_status (bz_client s)) then Some (ls_last_connected_at (bb_status (bz_client s))) else None)"
    using busy_reach_session [OF assms(1)] assms(3) by (simp_all add: session_inv_def default_stable_threshold_def Let_def)
  note n = after_session_result [OF a(1) i(1)]
  have u: "30 * second \<le> session_uptime (bb_status (bz_client s)) connect_start now err
      \<longleftrightarrow> (case bz_up_since s of None \<Rightarrow> False | Some up \<Rightarrow> up \<noteq> 0 \<and> 30 * second \<le> time_sub now up)"
    using i(2,3) by (auto simp: session_uptime_def second_def)
  have now: "ls_last_disconnected_at (bb_status (bz_client t)) = now" using n by simp
  show ?thesis
    unfolding Let_def now using n r u a(2,3) c by (intro conjI exI [of _ r]) simp_all
qed

text \<open>
  C10: no frame is lost silently. In every reachable state the frames the consumer got and those
  buffered are a subsequence of the binary frames that arrived, in order; the others are exactly
  those refused, and the overflow counter is their number; the buffer stays within its size.
\<close>

theorem frames_accounted:
  assumes "busy_reach ovf config s"
  shows "subseq (bz_consumed s @ ch_buf (bb_frames (bz_client s))) (bz_arrived s)
    \<and> mset (bz_arrived s) = mset (bz_consumed s @ ch_buf (bb_frames (bz_client s))) + mset (bz_refused s)
    \<and> bb_overflow_count (bz_client s) = of_nat (length (bz_refused s))
    \<and> length (ch_buf (bb_frames (bz_client s))) \<le> nat (bc_buffer_size (fill_defaults config))"
  using busy_reach_frames [OF assms] busy_reach_inv [OF assms]
  by (auto simp: frames_inv_def busy_inv_def chan_wf_def Let_def)

text \<open>
  C23: unless \<open>Start\<close> came when the channel was closed or a \<open>Close\<close> was past its wait, no goroutine
  sends on the closed channel, the channel is closed only when no worker runs, so \<open>Close\<close> closes it
  only once the worker ended, and the client says it is connected only while a session is being read
  or has just ended.
\<close>

theorem client_lifecycle_safe:
  assumes "busy_reach ovf config s" "\<not> bz_closed_early s"
  shows "\<not> bz_panicked s
    \<and> (ch_closed (bb_frames (bz_client s)) \<or> 0 < bz_waited s \<longrightarrow> bz_phase s = Idle \<or> bz_phase s = Exited)
    \<and> (ls_connected (bb_status (bz_client s)) \<longrightarrow> (\<exists>t. bz_phase s = Reading t) \<or> (\<exists>t e. bz_phase s = Ended t e))"
  using busy_reach_inv [OF assms(1)] assms(2) by (auto simp: busy_inv_def Let_def)

lemma busy_stepI: "busy_reach ovf config s \<Longrightarrow> busy_step ovf s t \<Longrightarrow> t = u \<Longrightarrow> busy_reach ovf config u"
  using busy_reach.step by blast

text \<open>Runs from the initial state: start, connect, then one binary frame.\<close>

definition reading_state :: "busy_config \<Rightarrow> bool \<Rightarrow> busy_sys" where
  "reading_state config early = (let c = (if early then close_frames_once (new_busy_client config) else new_busy_client config)
     in (busy_init config)\<lparr>bz_client := session_up 2 (c\<lparr>bb_cancel := Some False\<rparr>), bz_phase := Reading 1,
          bz_up_since := Some 2, bz_backoff := bc_initial_backoff (fill_defaults config), bz_closed_early := early\<rparr>)"

text \<open>A whole \<open>Close\<close> while no worker runs.\<close>

lemma close_whole:
  assumes "busy_reach ovf config s" "bz_phase s = Idle" "bb_cancel (bz_client s) = None" "\<not> bz_panicked s"
  shows "busy_reach ovf config (s\<lparr>bz_client := close_frames_once (bz_client s)\<rparr>)"
proof -
  have c: "close_request (bz_client s) = bz_client s" using assms(3) by (simp add: close_request_def)
  have "busy_reach ovf config (s\<lparr>bz_closing := bz_closing s + 1\<rparr>)"
    by (rule busy_stepI [OF assms(1) busy_step.close [OF assms(4)]]) (simp add: c)
  then have "busy_reach ovf config (s\<lparr>bz_waited := bz_waited s + 1\<rparr>)"
    by (rule busy_stepI [OF _ busy_step.close_wait]) (simp_all add: assms)
  then show ?thesis by (rule busy_stepI [OF _ busy_step.close_done]) (simp_all add: assms)
qed

lemma reading_reachable: "busy_reach ovf config (reading_state config early)"
proof -
  let ?c = "if early then close_frames_once (new_busy_client config) else new_busy_client config"
  let ?i = "(busy_init config)\<lparr>bz_client := ?c\<rparr>"
  let ?s1 = "?i\<lparr>bz_client := ?c\<lparr>bb_cancel := Some False\<rparr>, bz_phase := LoopTop,
      bz_backoff := bc_initial_backoff (fill_defaults config), bz_closed_early := early\<rparr>"
  have "busy_reach ovf config ?i"
    using busy_reach.init [of ovf config] close_whole [OF busy_reach.init, of config ovf]
    by (cases early) (simp_all add: busy_init_def new_busy_client_def Let_def)
  moreover have "bb_cfg ?c = fill_defaults config" "bb_cancel ?c = None" "bb_close_once ?c = early"
    by (simp_all add: new_busy_client_def Let_def)
  ultimately have r1: "busy_reach ovf config ?s1"
    by (elim busy_stepI [OF _ busy_step.start [where c = "?c\<lparr>bb_cancel := Some False\<rparr>"]])
      (simp_all add: busy_init_def busy_start_def)
  have "busy_reach ovf config (?s1\<lparr>bz_phase := Connecting 1\<rparr>)"
    by (rule busy_stepI [OF r1 busy_step.connect [where now = 1]]) (simp_all add: busy_init_def busy_ctx_done_def)
  then show ?thesis
    by (elim busy_stepI [OF _ busy_step.connected [where now = 2]])
      (simp_all add: busy_init_def reading_state_def Let_def)
qed




lemma reading_default_inv:
  "\<not> bz_closed_early (reading_state busy_default_config False)"
  by (simp add: reading_state_def)

lemma fill_default_config: "fill_defaults busy_default_config = busy_default_config"
  by (simp add: fill_defaults_def busy_default_config_def go_arith)

text \<open>The session goes on: one frame arrives, the read fails, the loop sleeps.\<close>

definition fed_state :: "busy_config \<Rightarrow> busy_sys" where
  "fed_state config = (let s = reading_state config False in
     s\<lparr>bz_client := (bz_client s)\<lparr>bb_frames := (bb_frames (bz_client s))\<lparr>ch_buf := [''x'']\<rparr>\<rparr>, bz_arrived := [''x'']\<rparr>)"

lemma fed_reachable: "busy_reach ovf busy_default_config (fed_state busy_default_config)"
proof (rule busy_stepI [OF reading_reachable [of ovf busy_default_config False] busy_step.read])
  let ?s = "reading_state busy_default_config False"
  show "read_message MessageBinary ''x'' (bz_client ?s)
      = Some ((bz_client ?s)\<lparr>bb_frames := (bb_frames (bz_client ?s))\<lparr>ch_buf := [''x'']\<rparr>\<rparr>)"
    by (simp add: read_message_def try_send_def reading_state_def session_up_def new_busy_client_def
        fill_default_config Let_def) (simp add: busy_default_config_def make_chan_def)
qed (simp_all add: reading_state_def fed_state_def busy_init_def Let_def)

lemma slept_reachable:
  obtains t d where
    "busy_reach ovf busy_default_config ((fed_state busy_default_config)\<lparr>
       bz_client := (bz_client (fed_state busy_default_config))\<lparr>bb_active_conn := False\<rparr>, bz_phase := Ended 1 (Some ''eof'')\<rparr>)"
    "busy_step ovf ((fed_state busy_default_config)\<lparr>
       bz_client := (bz_client (fed_state busy_default_config))\<lparr>bb_active_conn := False\<rparr>, bz_phase := Ended 1 (Some ''eof'')\<rparr>) t"
    "bz_phase t = Sleeping d" "bz_sleeps t = [d]"
proof -
  let ?s = "fed_state busy_default_config"
  let ?f = "?s\<lparr>bz_client := (bz_client ?s)\<lparr>bb_active_conn := False\<rparr>, bz_phase := Ended 1 (Some ''eof'')\<rparr>"
  have f: "busy_reach ovf busy_default_config ?f"
    by (rule busy_stepI [OF fed_reachable busy_step.read_failed [where t = 1]])
      (simp_all add: fed_state_def reading_state_def busy_init_def Let_def)
  have "\<not> busy_ctx_done ?f"
    by (simp add: busy_ctx_done_def fed_state_def reading_state_def busy_init_def session_up_def Let_def)
  then obtain c d b where "after_session ovf 0 (busy_ctx_done ?f) 1 2 (Some ''eof'') (bz_backoff ?f) (bz_client ?f)
      = (c, Some (d, b))" by (simp add: after_session_def Let_def)
  from that [OF f busy_step.ended_sleep [OF _ _ _ _ this]] show thesis
    by (simp add: fed_state_def reading_state_def busy_init_def Let_def)
qed

lemma reconnect_sleeps_bounded_witness:
  "\<exists>s d. busy_reach (\<lambda>_. 0) busy_default_config s \<and> bz_sleeps s = [d] \<and> 0 \<le> d \<and> d \<le> 60 * second"
proof -
  obtain s d where s: "busy_reach (\<lambda>_. 0) busy_default_config s" "bz_sleeps s = [d]"
    by (rule slept_reachable) (blast intro: busy_reach.step)
  have "bc_max_backoff busy_default_config = 60 * second" by (simp add: busy_default_config_def)
  with reconnect_sleeps_bounded [OF s(1)] s default_backoff_exact show ?thesis
    by (auto simp: fill_default_config)
qed

lemma backoff_reset_only_when_stable_witness:
  "\<exists>s t. busy_reach (\<lambda>_. 0) busy_default_config s \<and> busy_step (\<lambda>_. 0) s t
     \<and> bz_backoff s = second \<and> bb_backoff_delay (bz_client t) = second"
proof -
  let ?f = "(fed_state busy_default_config)\<lparr>bz_client := (bz_client (fed_state busy_default_config))\<lparr>bb_active_conn := False\<rparr>,
      bz_phase := Ended 1 (Some ''eof'')\<rparr>"
  obtain t d where t: "busy_reach (\<lambda>_. 0) busy_default_config ?f" "busy_step (\<lambda>_. 0) ?f t" "bz_phase t = Sleeping d"
    by (rule slept_reachable)
  have "bz_backoff ?f = second"
    by (simp add: fed_state_def reading_state_def fill_default_config Let_def) (simp add: busy_default_config_def)
  moreover have "bc_initial_backoff busy_default_config = second" by (simp add: busy_default_config_def)
  ultimately show ?thesis
    using backoff_reset_only_when_stable [OF t(1,2) _ t(3), of 1 "Some ''eof''"] t
    by (intro exI [of _ ?f] exI [of _ t]) (simp add: fill_default_config Let_def)
qed

lemma frames_accounted_witness:
  "bb_overflow_count (bz_client (fed_state busy_default_config)) = 0 \<and> bz_arrived (fed_state busy_default_config) = [''x'']"
  using frames_accounted [OF fed_reachable [of "\<lambda>_. 0"]]
  by (simp add: fed_state_def reading_state_def busy_init_def Let_def)

lemma client_lifecycle_safe_witness:
  "\<not> bz_panicked (reading_state busy_default_config False)"
  using client_lifecycle_safe [OF reading_reachable [of "\<lambda>_. 0"] reading_default_inv] by simp

section \<open>The endpoint\<close>

lemma trim_right_append:
  "trim_right c (xs @ ys) = (if \<forall>y \<in> set ys. y = c then trim_right c xs else xs @ trim_right c ys)"
  by (auto simp: trim_right_def dropWhile_append)

lemma trim_right_id: "xs \<noteq> [] \<Longrightarrow> c \<notin> set xs \<Longrightarrow> trim_right c xs = xs"
  by (cases xs rule: rev_cases) (auto simp: trim_right_def)

lemma cut_at_slash:
  assumes "h \<noteq> []" "CHR ''/'' \<notin> set h" "rest = [] \<or> hd rest = CHR ''/''"
  shows "(case index_byte (CHR ''/'') (trim_right (CHR ''/'') (h @ rest)) of
     Some idx \<Rightarrow> take idx (trim_right (CHR ''/'') (h @ rest)) | None \<Rightarrow> trim_right (CHR ''/'') (h @ rest)) = h"
proof (cases "\<forall>y \<in> set rest. y = CHR ''/''")
  case True
  then have "trim_right (CHR ''/'') (h @ rest) = h" using assms(1,2) by (simp add: trim_right_append trim_right_id)
  moreover have "index_byte (CHR ''/'') h = None" using assms(2) by (simp add: index_byte_None)
  ultimately show ?thesis by simp
next
  case False
  then obtain r where r: "rest = CHR ''/'' # r" using assms(3) by (cases rest) auto
  have "\<exists>q. trim_right (CHR ''/'') rest = CHR ''/'' # q"
    using trim_right_append [of "CHR ''/''" "''/''" r] False by (auto simp: r)
  then obtain q where q: "trim_right (CHR ''/'') rest = CHR ''/'' # q" ..
  then have "trim_right (CHR ''/'') (h @ rest) = h @ CHR ''/'' # q" using False by (auto simp: trim_right_append)
  then show ?thesis using index_byte_append [OF assms(2), of q] by simp
qed

definition url_schemes :: "(string \<times> string) list" where
  "url_schemes = [('''', ''ws''), (''http://'', ''ws''), (''https://'', ''wss''), (''ws://'', ''ws''),
     (''wss://'', ''wss'')]"

lemma no_scheme:
  assumes "CHR '':'' \<notin> set h" "rest = [] \<or> hd rest = CHR ''/''" "CHR ''/'' \<notin> set p"
  shows "\<not> has_prefix (h @ rest) (p @ CHR '':'' # q)"
proof
  assume "has_prefix (h @ rest) (p @ CHR '':'' # q)"
  then have pre: "prefix (p @ [CHR '':'']) (h @ rest)"
    by (auto simp: has_prefix_iff prefix_def)
  then have "prefix (p @ [CHR '':'']) h"
  proof (cases "length (p @ [CHR '':'']) \<le> length h")
    case True
    then show ?thesis using pre by (metis prefix_length_prefix prefixI)
  next
    case False
    then have "\<not> prefix (p @ [CHR '':'']) h" using prefix_length_le by blast
    then obtain us where us: "p @ [CHR '':''] = h @ us" "prefix us rest"
      using pre unfolding prefix_append [of _ h rest] by blast
    have "us \<noteq> []" using us(1) False by auto
    note us = us(1) this us(2)
    then have "CHR ''/'' \<in> set us" using assms(2) by (cases us; cases rest) auto
    then have "CHR ''/'' \<in> set (p @ [CHR '':''])" unfolding us(1) by simp
    then show ?thesis using assms(3) by simp
  qed
  then show False using assms(1) by (auto simp: prefix_def)
qed

lemma split_scheme_of:
  assumes "CHR '':'' \<notin> set h" "rest = [] \<or> hd rest = CHR ''/''" "(p, sch) \<in> set url_schemes"
  shows "split_scheme (p @ h @ rest) = (sch, h @ rest)"
proof -
  have none: "\<not> has_prefix (h @ rest) ''http://''" "\<not> has_prefix (h @ rest) ''https://''"
      "\<not> has_prefix (h @ rest) ''ws://''" "\<not> has_prefix (h @ rest) ''wss://''"
    using no_scheme [OF assms(1,2), of "''http''" "''//''"] no_scheme [OF assms(1,2), of "''https''" "''//''"]
      no_scheme [OF assms(1,2), of "''ws''" "''//''"] no_scheme [OF assms(1,2), of "''wss''" "''//''"] by simp_all
  consider "p = ''''" "sch = ''ws''" | "p = ''http://''" "sch = ''ws''" | "p = ''https://''" "sch = ''wss''"
    | "p = ''ws://''" "sch = ''ws''" | "p = ''wss://''" "sch = ''wss''"
    using assms(3) by (auto simp: url_schemes_def)
  then show ?thesis
  proof cases
    case 1
    then show ?thesis using none by (simp add: split_scheme_def)
  qed (simp_all add: split_scheme_def trim_prefix_def has_prefix_def)
qed

text \<open>
  C38: a plain host name, written bare or with any of the four schemes, with or without a path, is
  reduced to that name: the endpoint is \<open>ws\<close> or \<open>wss\<close> by the scheme, the name, the configured port,
  and the fixed path of the stream.
\<close>

theorem endpoint_of_host:
  assumes "plain_host h" "CHR ''/'' \<notin> set h" "(p, sch) \<in> set url_schemes"
    and "rest = [] \<or> hd rest = CHR ''/''" "bc_host cfg = p @ h @ rest" "0 < bc_port cfg"
  shows "endpoint_url cfg = sch @ ''://'' @ h @ '':'' @ itoa (bc_port cfg) @ ''/api/status/ws''"
proof -
  have h: "h \<noteq> []" "CHR '':'' \<notin> set h" using assms(1) by (auto simp: plain_host_def)
  have "split_scheme (bc_host cfg) = (sch, h @ rest)"
    using split_scheme_of [OF h(2) assms(4,3)] assms(5) by simp
  moreover have "endpoint_host_port h (bc_port cfg) = h @ '':'' @ itoa (bc_port cfg)"
    using assms(1,6) by (simp add: endpoint_host_port_def split_plain join_plain)
  ultimately show ?thesis
    using cut_at_slash [OF h(1) assms(2,4)] by (simp add: endpoint_url_def)
qed

lemma endpoint_of_host_witness:
  "endpoint_url (busy_default_config\<lparr>bc_host := ''https://bar.local/x/''\<rparr>) = ''wss://bar.local:80/api/status/ws''"
proof -
  have i: "itoa 80 = ''80''" by code_simp
  show ?thesis
    using endpoint_of_host [of "''bar.local''" "''https://''" "''wss''" "''/x/''"
      "busy_default_config\<lparr>bc_host := ''https://bar.local/x/''\<rparr>"] i
    by (simp add: plain_host_def url_schemes_def busy_default_config_def)
qed

end
