(* ===== verification/PushClient.thy ===== *)
theory PushClient
  imports PbMessages GoNet Channels Telemetry "HOL-Library.Multiset"
begin

text \<open>
  \<open>internal/busybar/push.go\<close>: the outbound client that sends frames to the display. The
  telemetry recorder is an interface value, here a record of the three methods as functions on its
  state; the lemmas about counts are proved from the laws of \<open>push_recorder\<close> and then read for
  the telemetry store. \<open>proto.Marshal\<close> is the parameter \<open>marshal\<close>.

  The mailbox is a channel of one slot. \<open>PushFrame\<close> holds a lock, but the worker may take the
  frame between its failed send, its eviction and its last send, so these are three steps; the last
  send would block a caller if the slot could be full again. \<open>push_frame\<close> is a call that nothing
  interrupts, for the callers that are modelled on their own. A transmission is two steps, with the
  request in flight in between. The ghost fields record the frames that \<open>PushFrame\<close> accepted, inserted
  and evicted, and those transmitted.
\<close>

section \<open>Configuration and state\<close>

record push_config =
  pc_enabled :: bool
  pc_host :: string
  pc_port :: int
  pc_api_key :: string
  pc_timeout :: duration
  pc_default_screen :: enum32

definition default_push_config :: push_config where
  "default_push_config = \<lparr>pc_enabled = False, pc_host = ''192.168.68.196'', pc_port = 80,
     pc_api_key = '''', pc_timeout = 3 * second, pc_default_screen = Screen_FRONT\<rparr>"

record 's recorder_ops =
  ro_attempt :: "'s \<Rightarrow> 's"
  ro_result :: "gtime \<Rightarrow> bool \<Rightarrow> duration \<Rightarrow> string option \<Rightarrow> 's \<Rightarrow> 's"
  ro_drop :: "'s \<Rightarrow> 's"

definition noop_recorder :: "'s recorder_ops" where
  "noop_recorder = \<lparr>ro_attempt = (\<lambda>s. s), ro_result = (\<lambda>_ _ _ _ s. s), ro_drop = (\<lambda>s. s)\<rparr>"

definition store_recorder :: "tstore recorder_ops" where
  "store_recorder = \<lparr>ro_attempt = record_push_attempt, ro_result = record_push_result,
     ro_drop = record_push_drop\<rparr>"

record push_client =
  pu_cfg :: push_config
  pu_mailbox :: "frame chan"
  pu_http_timeout :: duration
  pu_cancel :: "bool option"
  pu_closed :: bool
  pu_started :: bool

definition effective_timeout :: "duration \<Rightarrow> duration" where
  "effective_timeout t = (if t \<le> 0 then 3 * second else t)"

definition new_push_client :: "push_config \<Rightarrow> push_client" where
  "new_push_client cfg = \<lparr>pu_cfg = cfg, pu_mailbox = make_chan 1,
     pu_http_timeout = effective_timeout (pc_timeout cfg), pu_cancel = None, pu_closed = False,
     pu_started = False\<rparr>"

definition choose_recorder :: "'s recorder_ops option \<Rightarrow> 's recorder_ops" where
  "choose_recorder r = (case r of None \<Rightarrow> noop_recorder | Some ops \<Rightarrow> ops)"

definition push_start :: "push_client \<Rightarrow> string option \<times> push_client" where
  "push_start c =
     (if pu_started c then (Some ''push client already started'', c)
      else (None, c\<lparr>pu_started := True, pu_cancel := Some False\<rparr>))"

definition push_close :: "push_client \<Rightarrow> push_client" where
  "push_close c = c\<lparr>pu_closed := True, pu_cancel := map_option (\<lambda>_. True) (pu_cancel c)\<rparr>"

section \<open>PushFrame\<close>

datatype push_error = ErrNilFrame | ErrEmptyData | ErrClientClosed

datatype push_guard = PushIgnored | PushRefused push_error | PushGo frame

definition push_guard :: "push_client \<Rightarrow> frame option \<Rightarrow> push_guard" where
  "push_guard c fr =
     (if \<not> pc_enabled (pu_cfg c) then PushIgnored
      else (case fr of
        None \<Rightarrow> PushRefused ErrNilFrame
      | Some f \<Rightarrow>
          if length (Frame_GetData fr) = 0 then PushRefused ErrEmptyData
          else if pu_closed c then PushRefused ErrClientClosed
          else PushGo f))"

text \<open>The eviction of the older frame, when there still is one.\<close>

definition push_evict :: "'s recorder_ops \<Rightarrow> push_client \<Rightarrow> 's \<Rightarrow> push_client \<times> 's \<times> frame option" where
  "push_evict ops c st = (case try_recv (pu_mailbox c) of
     Received old ch \<Rightarrow> (c\<lparr>pu_mailbox := ch\<rparr>, ro_drop ops st, Some old)
   | _ \<Rightarrow> (c, st, None))"

text \<open>A whole call that no step of the worker interrupts; \<open>None\<close> is a call that blocks.\<close>

definition push_frame :: "'s recorder_ops \<Rightarrow> frame option \<Rightarrow> push_client \<times> 's \<Rightarrow> (push_error option \<times> push_client \<times> 's) option" where
  "push_frame ops fr s = (case s of (c, st) \<Rightarrow> (case push_guard c fr of
     PushIgnored \<Rightarrow> Some (None, c, st)
   | PushRefused err \<Rightarrow> Some (Some err, c, st)
   | PushGo f \<Rightarrow> (case try_send f (pu_mailbox c) of
       Sent ch \<Rightarrow> Some (None, c\<lparr>pu_mailbox := ch\<rparr>, st)
     | _ \<Rightarrow> (case push_evict ops c st of (c1, st1, _) \<Rightarrow> (case try_send f (pu_mailbox c1) of
         Sent ch \<Rightarrow> Some (None, c1\<lparr>pu_mailbox := ch\<rparr>, st1)
       | _ \<Rightarrow> None)))))"

section \<open>transmit\<close>

definition with_screen :: "push_config \<Rightarrow> frame \<Rightarrow> frame" where
  "with_screen cfg f =
     (if fr_screen f = 0
      then (if pc_default_screen cfg \<noteq> 0 then f\<lparr>fr_screen := pc_default_screen cfg\<rparr>
            else f\<lparr>fr_screen := Screen_FRONT\<rparr>)
      else f)"

definition push_target_url :: "push_config \<Rightarrow> string" where
  "push_target_url cfg =
     (let port = (if pc_port cfg \<le> 0 then 80 else pc_port cfg);
          host = trim_prefix (trim_prefix (pc_host cfg) ''http://'') ''https://''
      in ''http://'' @ join_host_port host (itoa port) @ ''/api/display/frame'')"

record push_request =
  pr_url :: string
  pr_content_type :: string
  pr_authorization :: "string option"
  pr_body :: string

record transmit_env =
  te_start :: gtime
  te_new_request :: "string option"
  te_response :: "string + int"
  te_end :: gtime
  te_recorded :: gtime

definition push_status_error :: "int \<Rightarrow> string" where
  "push_status_error code = ''HTTP push failed with status '' @ itoa code"

text \<open>What is recorded before the request, then the request that was sent, if any, and the recorder after it.\<close>

definition transmit_begin :: "'s recorder_ops \<Rightarrow> push_config \<Rightarrow> 's \<Rightarrow> 's" where
  "transmit_begin ops cfg st = (if pc_enabled cfg then ro_attempt ops st else st)"

definition transmit_end :: "'s recorder_ops \<Rightarrow> (frame \<Rightarrow> string + string) \<Rightarrow> push_config \<Rightarrow> transmit_env
    \<Rightarrow> frame \<Rightarrow> 's \<Rightarrow> push_request option \<times> 's" where
  "transmit_end ops marshal cfg env f st =
     (if \<not> pc_enabled cfg then (None, st)
      else let latency = time_sub (te_end env) (te_start env);
               result = (\<lambda>ok err. ro_result ops (te_recorded env) ok latency err st)
        in (case marshal (with_screen cfg f) of
              Inl err \<Rightarrow> (None, result False (Some (''failed to marshal frame: '' @ err)))
            | Inr payload \<Rightarrow>
               (case te_new_request env of
                  Some err \<Rightarrow> (None, result False (Some err))
                | None \<Rightarrow>
                   (let req = \<lparr>pr_url = push_target_url cfg, pr_content_type = ''application/octet-stream'',
                       pr_authorization = (if pc_api_key cfg \<noteq> '''' then Some (''Bearer '' @ pc_api_key cfg) else None),
                       pr_body = payload\<rparr>
                    in (Some req, (case te_response env of
                         Inl err \<Rightarrow> result False (Some err)
                       | Inr code \<Rightarrow>
                          if code = 200 \<or> code = 204 then result True None
                          else result False (Some (push_status_error code))))))))"

section \<open>Worker and callers\<close>

datatype pusher = PushIdle | PushFull frame | PushLast frame

datatype push_worker = WorkerNone | WorkerRunning | WorkerStopped

record 's push_sys =
  pp_client :: push_client
  pp_rec :: 's
  pp_pusher :: pusher
  pp_worker :: push_worker
  pp_parent_done :: bool
  pp_flight :: "frame option"
  pp_accepted :: "frame list"
  pp_inserted :: "frame list"
  pp_transmitted :: "frame list"
  pp_evicted :: "frame list"
  pp_requests :: "push_request list"

definition push_ctx_done :: "'s push_sys \<Rightarrow> bool" where
  "push_ctx_done s \<longleftrightarrow> pp_parent_done s \<or> pu_cancel (pp_client s) = Some True"

inductive push_step :: "'s recorder_ops \<Rightarrow> (frame \<Rightarrow> string + string) \<Rightarrow> 's push_sys \<Rightarrow> 's push_sys \<Rightarrow> bool"
  for ops marshal where
  push_sent: "pp_pusher s = PushIdle \<Longrightarrow> push_guard (pp_client s) fr = PushGo f \<Longrightarrow>
     try_send f (pu_mailbox (pp_client s)) = Sent ch \<Longrightarrow>
     push_step ops marshal s (s\<lparr>pp_client := (pp_client s)\<lparr>pu_mailbox := ch\<rparr>,
       pp_accepted := pp_accepted s @ [f], pp_inserted := pp_inserted s @ [f]\<rparr>)"
| push_full: "pp_pusher s = PushIdle \<Longrightarrow> push_guard (pp_client s) fr = PushGo f \<Longrightarrow>
     try_send f (pu_mailbox (pp_client s)) = WouldBlock \<Longrightarrow>
     push_step ops marshal s (s\<lparr>pp_pusher := PushFull f, pp_accepted := pp_accepted s @ [f]\<rparr>)"
| push_evicts: "pp_pusher s = PushFull f \<Longrightarrow> push_evict ops (pp_client s) (pp_rec s) = (c, st, old) \<Longrightarrow>
     push_step ops marshal s (s\<lparr>pp_client := c, pp_rec := st, pp_pusher := PushLast f,
       pp_evicted := (case old of None \<Rightarrow> pp_evicted s | Some g \<Rightarrow> pp_evicted s @ [g])\<rparr>)"
| push_last: "pp_pusher s = PushLast f \<Longrightarrow> try_send f (pu_mailbox (pp_client s)) = Sent ch \<Longrightarrow>
     push_step ops marshal s (s\<lparr>pp_client := (pp_client s)\<lparr>pu_mailbox := ch\<rparr>, pp_pusher := PushIdle,
       pp_inserted := pp_inserted s @ [f]\<rparr>)"
| start: "push_start (pp_client s) = (None, c) \<Longrightarrow>
     push_step ops marshal s (s\<lparr>pp_client := c, pp_worker := WorkerRunning\<rparr>)"
| close: "push_step ops marshal s (s\<lparr>pp_client := push_close (pp_client s)\<rparr>)"
| parent_cancel: "push_step ops marshal s (s\<lparr>pp_parent_done := True\<rparr>)"
| worker_done: "pp_worker s = WorkerRunning \<Longrightarrow> pp_flight s = None \<Longrightarrow> push_ctx_done s \<Longrightarrow>
     push_step ops marshal s (s\<lparr>pp_worker := WorkerStopped\<rparr>)"
| worker_take: "pp_worker s = WorkerRunning \<Longrightarrow> pp_flight s = None \<Longrightarrow>
     try_recv (pu_mailbox (pp_client s)) = Received f ch \<Longrightarrow>
     push_step ops marshal s (s\<lparr>pp_client := (pp_client s)\<lparr>pu_mailbox := ch\<rparr>,
       pp_rec := transmit_begin ops (pu_cfg (pp_client s)) (pp_rec s), pp_flight := Some f\<rparr>)"
| worker_sent: "pp_worker s = WorkerRunning \<Longrightarrow> pp_flight s = Some f \<Longrightarrow>
     transmit_end ops marshal (pu_cfg (pp_client s)) env f (pp_rec s) = (req, st) \<Longrightarrow>
     push_step ops marshal s (s\<lparr>pp_rec := st, pp_flight := None,
       pp_transmitted := pp_transmitted s @ [f],
       pp_requests := (case req of None \<Rightarrow> pp_requests s | Some q \<Rightarrow> pp_requests s @ [q])\<rparr>)"

definition push_init :: "push_config \<Rightarrow> 's \<Rightarrow> 's push_sys" where
  "push_init cfg st = \<lparr>pp_client = new_push_client cfg, pp_rec = st, pp_pusher = PushIdle,
     pp_worker = WorkerNone, pp_parent_done = False, pp_flight = None, pp_accepted = [], pp_inserted = [],
     pp_transmitted = [], pp_evicted = [], pp_requests = []\<rparr>"

inductive push_reach :: "'s recorder_ops \<Rightarrow> (frame \<Rightarrow> string + string) \<Rightarrow> push_config \<Rightarrow> 's \<Rightarrow> 's push_sys \<Rightarrow> bool"
  for ops marshal cfg st0 where
  init: "push_reach ops marshal cfg st0 (push_init cfg st0)"
| step: "push_reach ops marshal cfg st0 s \<Longrightarrow> push_step ops marshal s t \<Longrightarrow> push_reach ops marshal cfg st0 t"

section \<open>The mailbox\<close>

definition mailbox_ok :: "push_client \<Rightarrow> bool" where
  "mailbox_ok c \<longleftrightarrow> \<not> ch_closed (pu_mailbox c) \<and> ch_cap (pu_mailbox c) = 1 \<and> length (ch_buf (pu_mailbox c)) \<le> 1"

lemma new_push_client_ok: "mailbox_ok (new_push_client cfg)"
  by (simp add: mailbox_ok_def new_push_client_def)

text \<open>
  A call that is not interrupted returns. A client that is disabled ignores the frame, a closed one
  refuses it, and otherwise it is what waits in the slot afterwards, the older one being dropped.
\<close>

lemma push_frame_result:
  assumes "mailbox_ok c" "fr_data f \<noteq> []"
  shows "\<exists>err c' st'. push_frame ops (Some f) (c, st) = Some (err, c', st') \<and> mailbox_ok c'
    \<and> (if \<not> pc_enabled (pu_cfg c) then err = None \<and> c' = c \<and> st' = st
       else if pu_closed c then err = Some ErrClientClosed \<and> c' = c \<and> st' = st
       else err = None \<and> ch_buf (pu_mailbox c') = [f]
         \<and> st' = (if ch_buf (pu_mailbox c) = [] then st else ro_drop ops st))"
proof (cases "ch_buf (pu_mailbox c)")
  case Nil
  then show ?thesis using assms
    by (auto simp: push_frame_def push_guard_def try_send_def mailbox_ok_def Frame_GetData_def)
next
  case (Cons g gs)
  then show ?thesis using assms
    by (auto simp: push_frame_def push_guard_def push_evict_def try_send_def try_recv_def mailbox_ok_def Frame_GetData_def)
qed

text \<open>The frames the worker has or had, in order, then the one waiting.\<close>

definition passed_on :: "'s push_sys \<Rightarrow> frame list" where
  "passed_on s = pp_transmitted s @ (case pp_flight s of None \<Rightarrow> [] | Some f \<Rightarrow> [f]) @ ch_buf (pu_mailbox (pp_client s))"

definition in_call :: "'s push_sys \<Rightarrow> frame list" where
  "in_call s = (case pp_pusher s of PushIdle \<Rightarrow> [] | PushFull f \<Rightarrow> [f] | PushLast f \<Rightarrow> [f])"

definition push_inv :: "push_config \<Rightarrow> 's push_sys \<Rightarrow> bool" where
  "push_inv cfg s \<longleftrightarrow> (let m = pu_mailbox (pp_client s) in
     pu_cfg (pp_client s) = cfg \<and> mailbox_ok (pp_client s)
     \<and> (\<not> pc_enabled cfg \<longrightarrow> pp_inserted s = [] \<and> pp_pusher s = PushIdle \<and> pp_flight s = None \<and> ch_buf m = [])
     \<and> (\<forall>f. pp_pusher s = PushLast f \<longrightarrow> ch_buf m = [])
     \<and> pp_accepted s = pp_inserted s @ in_call s
     \<and> (pp_inserted s \<noteq> [] \<and> (pp_pusher s = PushIdle \<or> ch_buf m \<noteq> []) \<longrightarrow>
          passed_on s \<noteq> [] \<and> last (passed_on s) = last (pp_inserted s))
     \<and> subseq (passed_on s) (pp_inserted s)
     \<and> mset (pp_inserted s) = mset (passed_on s) + mset (pp_evicted s))"

lemma push_inv_init: "push_inv cfg (push_init cfg st)"
  by (simp add: push_inv_def push_init_def new_push_client_def mailbox_ok_def passed_on_def in_call_def)

lemma push_insert_inv:
  assumes "push_inv cfg s" "try_send f (pu_mailbox (pp_client s)) = Sent ch" "pc_enabled cfg"
  shows "push_inv cfg (s\<lparr>pp_client := (pp_client s)\<lparr>pu_mailbox := ch\<rparr>, pp_pusher := PushIdle,
    pp_accepted := pp_inserted s @ [f], pp_inserted := pp_inserted s @ [f]\<rparr>)"
proof -
  have b: "ch_buf (pu_mailbox (pp_client s)) = []" "ch = (pu_mailbox (pp_client s))\<lparr>ch_buf := [f]\<rparr>"
    using assms by (auto simp: push_inv_def mailbox_ok_def try_send_Sent Let_def)
  have "passed_on (s\<lparr>pp_client := (pp_client s)\<lparr>pu_mailbox := ch\<rparr>, pp_pusher := PushIdle,
      pp_accepted := pp_inserted s @ [f], pp_inserted := pp_inserted s @ [f]\<rparr>) = passed_on s @ [f]"
    using b by (simp add: passed_on_def)
  then show ?thesis using assms(1,3) b by (simp add: push_inv_def mailbox_ok_def in_call_def Let_def)
qed

lemma push_step_inv:
  assumes "push_step ops marshal s t" "push_inv cfg s"
  shows "push_inv cfg t"
  using assms
proof (induction rule: push_step.induct)
  case (push_sent s fr f ch)
  have "pc_enabled cfg" "pp_accepted s = pp_inserted s"
    using push_sent(1,2,4) by (auto simp: push_inv_def push_guard_def in_call_def Let_def split: if_splits)
  then show ?case using push_insert_inv [OF push_sent(4,3)] push_sent(1)
    by (simp add: push_inv_def passed_on_def in_call_def Let_def)
next
  case (push_full s fr f)
  have "pc_enabled cfg" using push_full(2,4) by (auto simp: push_inv_def push_guard_def Let_def split: if_splits)
  then show ?case using push_full by (simp add: push_inv_def passed_on_def in_call_def Let_def)
next
  case (push_evicts s f c st old)
  show ?case
  proof (cases "ch_buf (pu_mailbox (pp_client s))")
    case (Cons g gs)
    then have "gs = []" using push_evicts(3) by (auto simp: push_inv_def mailbox_ok_def Let_def)
    moreover have "subseq (pp_transmitted s @ (case pp_flight s of None \<Rightarrow> [] | Some f \<Rightarrow> [f])) (pp_inserted s)"
    proof (rule subseq_order.trans)
      show "subseq (pp_transmitted s @ (case pp_flight s of None \<Rightarrow> [] | Some f \<Rightarrow> [f])) (passed_on s)"
        unfolding passed_on_def append_assoc [symmetric] by (rule list_emb_prefix) simp
    qed (use push_evicts(3) in \<open>simp add: push_inv_def Let_def\<close>)
    ultimately show ?thesis using Cons push_evicts
      by (auto simp: push_inv_def mailbox_ok_def push_evict_def try_recv_def passed_on_def in_call_def Let_def)
  qed (use push_evicts in \<open>auto simp: push_inv_def mailbox_ok_def push_evict_def try_recv_def passed_on_def in_call_def Let_def\<close>)
next
  case (push_last s f ch)
  have "pc_enabled cfg" "pp_accepted s = pp_inserted s @ [f]"
    using push_last by (auto simp: push_inv_def in_call_def Let_def)
  then show ?case using push_insert_inv [OF push_last(3,2)]
    by (simp add: push_inv_def passed_on_def in_call_def Let_def)
next
  case (worker_take s f ch)
  then show ?case
    by (auto simp: push_inv_def mailbox_ok_def try_recv_Received passed_on_def in_call_def Let_def)
next
  case (worker_sent s f env req st)
  then show ?case by (auto simp: push_inv_def passed_on_def in_call_def Let_def)
qed (auto simp: push_inv_def mailbox_ok_def push_start_def push_close_def passed_on_def in_call_def Let_def split: if_splits)

lemma push_reach_inv: "push_reach ops marshal cfg st0 s \<Longrightarrow> push_inv cfg s"
  by (induction rule: push_reach.induct) (auto intro: push_inv_init push_step_inv)

section \<open>Counts, from the laws of a recorder\<close>

context push_recorder
begin

lemma begin_counts:
  assumes "pc_enabled cfg"
  shows "attempts (transmit_begin \<lparr>ro_attempt = rec_attempt, ro_result = rec_result, ro_drop = rec_drop\<rparr> cfg st) = attempts st + 1"
    "successes (transmit_begin \<lparr>ro_attempt = rec_attempt, ro_result = rec_result, ro_drop = rec_drop\<rparr> cfg st) = successes st"
    "failures (transmit_begin \<lparr>ro_attempt = rec_attempt, ro_result = rec_result, ro_drop = rec_drop\<rparr> cfg st) = failures st"
    "drops (transmit_begin \<lparr>ro_attempt = rec_attempt, ro_result = rec_result, ro_drop = rec_drop\<rparr> cfg st) = drops st"
  using assms by (simp_all add: transmit_begin_def recorder_laws)

lemma end_counts:
  assumes "transmit_end \<lparr>ro_attempt = rec_attempt, ro_result = rec_result, ro_drop = rec_drop\<rparr> marshal cfg env f st = (req, st')"
    and "pc_enabled cfg"
  shows "attempts st' = attempts st \<and> successes st' + failures st' = successes st + failures st + 1
    \<and> drops st' = drops st"
  using assms
  by (auto simp: transmit_end_def recorder_laws Let_def split: sum.splits option.splits if_splits)

lemma evict_counts:
  assumes "push_evict \<lparr>ro_attempt = rec_attempt, ro_result = rec_result, ro_drop = rec_drop\<rparr> c st = (c', st', old)"
  shows "attempts st' = attempts st \<and> successes st' = successes st \<and> failures st' = failures st
    \<and> drops st' = drops st + of_nat (length (case old of None \<Rightarrow> [] | Some g \<Rightarrow> [g]))"
  using assms by (auto simp: push_evict_def recorder_laws split: recv_result.splits)

definition counted :: "'s \<Rightarrow> 's push_sys \<Rightarrow> bool" where
  "counted st0 s \<longleftrightarrow> attempts (pp_rec s)
       = attempts st0 + of_nat (length (pp_transmitted s) + (if pp_flight s = None then 0 else 1))
     \<and> successes (pp_rec s) + failures (pp_rec s)
         = successes st0 + failures st0 + of_nat (length (pp_transmitted s))
     \<and> drops (pp_rec s) = drops st0 + of_nat (length (pp_evicted s))"

lemma counted_step:
  assumes "push_step \<lparr>ro_attempt = rec_attempt, ro_result = rec_result, ro_drop = rec_drop\<rparr> marshal s t"
    and "push_inv cfg s" "counted st0 s"
  shows "counted st0 t"
  using assms
proof (induction rule: push_step.induct)
  case (push_evicts s f c st old)
  with evict_counts [OF push_evicts(2)] show ?case by (auto simp: counted_def split: option.splits)
next
  case (worker_take s f ch)
  have "pc_enabled (pu_cfg (pp_client s))"
    using worker_take(3,4) by (auto simp: push_inv_def try_recv_Received Let_def)
  from begin_counts [OF this] worker_take(2,5) show ?case by (simp add: counted_def)
next
  case (worker_sent s f env req st)
  have "pc_enabled (pu_cfg (pp_client s))" using worker_sent(2,4) by (auto simp: push_inv_def Let_def)
  from end_counts [OF worker_sent(3) this] worker_sent(2,5) show ?case by (simp add: counted_def)
qed (auto simp: counted_def)

lemma counted_reach:
  "push_reach \<lparr>ro_attempt = rec_attempt, ro_result = rec_result, ro_drop = rec_drop\<rparr> marshal cfg st0 s \<Longrightarrow>
     counted st0 s"
proof (induction rule: push_reach.induct)
  case init
  then show ?case by (simp add: counted_def push_init_def)
next
  case (step s t)
  show ?case by (rule counted_step [OF step.hyps(2) push_reach_inv [OF step.hyps(1)] step.IH])
qed

end

section \<open>Correctness\<close>

text \<open>
  C9: \<open>PushFrame\<close> never blocks and the latest frame wins. In every reachable state the last send of
  an overwriting push finds the slot free; the frames accepted are, as a multiset, those the worker
  has or had, the one waiting, the evicted ones and the one in a call that has not returned; those not
  evicted keep their order; and whenever no call is under way the last frame accepted is the one
  waiting or, if none waits, the last one the worker took: it is never the one that was given up.
\<close>

theorem mailbox_latest_wins:
  assumes "push_reach ops marshal cfg st0 s"
  shows "(\<forall>f. pp_pusher s = PushLast f \<longrightarrow> (\<exists>ch. try_send f (pu_mailbox (pp_client s)) = Sent ch))
    \<and> length (ch_buf (pu_mailbox (pp_client s))) \<le> 1
    \<and> mset (pp_accepted s) = mset (passed_on s) + mset (pp_evicted s) + mset (in_call s)
    \<and> subseq (passed_on s) (pp_accepted s)
    \<and> (pp_pusher s = PushIdle \<and> pp_accepted s \<noteq> [] \<longrightarrow>
         passed_on s \<noteq> [] \<and> last (passed_on s) = last (pp_accepted s))"
  using push_reach_inv [OF assms]
  by (auto simp: push_inv_def mailbox_ok_def try_send_def in_call_def Let_def intro: list_emb_append2)

text \<open>
  C33: with the telemetry store as recorder, every frame that \<open>PushFrame\<close> accepts is counted, once:
  as an attempt when the worker takes it, and then as one success or failure when its request ends;
  or as a drop when it is evicted. Not yet counted are only the frame waiting in the slot and the one
  in a call that has not returned; the one in flight is an attempt without a result. A frame that
  still waits when the worker stops stays uncounted.
\<close>

theorem pushes_counted:
  assumes "push_reach store_recorder marshal cfg st0 s"
  shows "pt_total_attempts (ts_push (pp_rec s)) + pt_total_dropped (ts_push (pp_rec s))
       + of_nat (length (ch_buf (pu_mailbox (pp_client s))) + length (in_call s))
      = pt_total_attempts (ts_push st0) + pt_total_dropped (ts_push st0) + of_nat (length (pp_accepted s))
    \<and> pt_total_attempts (ts_push (pp_rec s)) = pt_total_attempts (ts_push st0)
        + of_nat (length (pp_transmitted s) + (if pp_flight s = None then 0 else 1))
    \<and> pt_total_successes (ts_push (pp_rec s)) + pt_total_failures (ts_push (pp_rec s))
        = pt_total_successes (ts_push st0) + pt_total_failures (ts_push st0) + of_nat (length (pp_transmitted s))
    \<and> pt_total_dropped (ts_push (pp_rec s)) = pt_total_dropped (ts_push st0) + of_nat (length (pp_evicted s))"
proof -
  have c: "tpush.counted st0 s" using tpush.counted_reach assms by (simp add: store_recorder_def)
  have inv: "push_inv cfg s" by (rule push_reach_inv [OF assms])
  then have "size (mset (pp_accepted s)) = size (mset (passed_on s) + mset (pp_evicted s) + mset (in_call s))"
    by (simp add: push_inv_def Let_def)
  then have "length (pp_accepted s) = length (pp_transmitted s) + (if pp_flight s = None then 0 else 1)
      + length (pp_evicted s) + length (ch_buf (pu_mailbox (pp_client s))) + length (in_call s)"
    by (simp add: passed_on_def split: option.splits)
  then show ?thesis using c by (simp add: tpush.counted_def)
qed

text \<open>
  The default screen. A frame addressed to the back screen is sent as it is; a frame with no
  screen goes to the default screen; but the front screen has the number of an unset field, so with
  the back screen as default a frame addressed to the front is sent to the back. Nothing else of
  the frame changes.
\<close>

theorem default_screen_applied:
  "with_screen cfg (f\<lparr>fr_screen := Screen_BACK\<rparr>) = f\<lparr>fr_screen := Screen_BACK\<rparr>
    \<and> with_screen cfg (f\<lparr>fr_screen := Screen_FRONT\<rparr>) = f\<lparr>fr_screen := pc_default_screen cfg\<rparr>
    \<and> fr_data (with_screen cfg f) = fr_data f
    \<and> fr_width (with_screen cfg f) = fr_width f \<and> fr_height (with_screen cfg f) = fr_height f"
  by (simp add: with_screen_def Screen_FRONT_def Screen_BACK_def)

section \<open>A run\<close>

definition demo_push_config :: push_config where
  "demo_push_config = default_push_config\<lparr>pc_enabled := True\<rparr>"

definition demo_frame :: "byte8 \<Rightarrow> frame" where
  "demo_frame b = \<lparr>fr_screen = 0, fr_width = 1, fr_height = 1, fr_encoding = 0, fr_pixel_format = 0,
     fr_data = [b]\<rparr>"

text \<open>Two frames pushed with no worker: the first is evicted.\<close>

definition evicted_state :: "tstore push_sys" where
  "evicted_state = (push_init demo_push_config (record_push_drop (new_store 0)))\<lparr>
     pp_client := (new_push_client demo_push_config)\<lparr>pu_mailbox := (make_chan 1)\<lparr>ch_buf := [demo_frame 2]\<rparr>\<rparr>,
     pp_accepted := [demo_frame 1, demo_frame 2],
     pp_inserted := [demo_frame 1, demo_frame 2], pp_evicted := [demo_frame 1]\<rparr>"

lemma push_stepI:
  assumes "push_reach ops marshal cfg st0 s" "push_step ops marshal s t" "t = u"
  shows "push_reach ops marshal cfg st0 u"
  using push_reach.step [OF assms(1,2)] assms(3) by simp

lemma evicted_reachable: "push_reach store_recorder marshal demo_push_config (new_store 0) evicted_state"
proof -
  let ?i = "push_init demo_push_config (new_store 0)"
  let ?m = "\<lambda>fs. (make_chan 1)\<lparr>ch_buf := fs\<rparr> :: frame chan"
  let ?s1 = "?i\<lparr>pp_client := (new_push_client demo_push_config)\<lparr>pu_mailbox := ?m [demo_frame 1]\<rparr>,
    pp_accepted := [demo_frame 1], pp_inserted := [demo_frame 1]\<rparr>"
  let ?s2 = "?s1\<lparr>pp_pusher := PushFull (demo_frame 2), pp_accepted := [demo_frame 1, demo_frame 2]\<rparr>"
  have g: "push_guard (pp_client ?i) (Some (demo_frame b)) = PushGo (demo_frame b)"
      "push_guard (pp_client ?s1) (Some (demo_frame b)) = PushGo (demo_frame b)" for b
    by (simp_all add: push_guard_def push_init_def new_push_client_def demo_push_config_def Frame_GetData_def demo_frame_def)
  have "push_reach store_recorder marshal demo_push_config (new_store 0) ?s1"
    by (rule push_stepI [OF push_reach.init push_step.push_sent [OF _ g(1)]])
      (simp_all add: push_init_def new_push_client_def try_send_def)
  then have "push_reach store_recorder marshal demo_push_config (new_store 0) ?s2"
    by (rule push_stepI [OF _ push_step.push_full [OF _ g(2)]])
      (simp_all add: push_init_def try_send_def)
  then have "push_reach store_recorder marshal demo_push_config (new_store 0)
      (?s2\<lparr>pp_client := (new_push_client demo_push_config)\<lparr>pu_mailbox := ?m []\<rparr>,
        pp_rec := record_push_drop (new_store 0), pp_evicted := [demo_frame 1], pp_pusher := PushLast (demo_frame 2)\<rparr>)"
    by (rule push_stepI [OF _ push_step.push_evicts])
      (simp add: push_init_def push_evict_def try_recv_def store_recorder_def)+
  then show ?thesis
    by (rule push_stepI [OF _ push_step.push_last])
      (simp_all add: push_init_def try_send_def evicted_state_def)
qed

lemma mailbox_latest_wins_witness:
  "last (passed_on evicted_state) = demo_frame 2 \<and> mset (pp_accepted evicted_state) = {#demo_frame 1, demo_frame 2#}"
  using mailbox_latest_wins [OF evicted_reachable [of "\<lambda>_. Inr ''x''"]]
  by (simp add: evicted_state_def passed_on_def push_init_def)

lemma pushes_counted_witness:
  "pt_total_dropped (ts_push (pp_rec evicted_state)) = 1"
  using pushes_counted [OF evicted_reachable [of "\<lambda>_. Inr ''x''"]]
  by (simp add: evicted_state_def new_store_def zero_push_def)

end
