(* ===== verification/CalStore.thy ===== *)
theory CalStore
  imports PbMessages GoStrings Interfaces
begin

text \<open>
  \<open>internal/calendar/store.go\<close>: the calendar binding on disk. A file system maps a path to the
  bytes and the permission bits of a file; \<open>Save\<close> is a function of what each system call
  answered and yields the file systems after each of its steps: what another process sees then, and
  what is left when the process dies there. A power failure is not modelled: the file systems are
  what the kernel holds, not what the disk holds, so \<open>Sync\<close> only adds a way to fail. The Protocol
  Buffer codec is the pair of parameters \<open>marshal\<close> and \<open>unmarshal\<close>.

  \<open>filepath.Dir\<close> and \<open>filepath.Clean\<close> are those of Unix.
\<close>

section \<open>Paths\<close>

fun split_slash :: "string \<Rightarrow> string list" where
  "split_slash [] = [[]]"
| "split_slash (c # cs) =
     (if c = CHR ''/'' then [] # split_slash cs
      else (case split_slash cs of p # ps \<Rightarrow> (c # p) # ps | [] \<Rightarrow> [[c]]))"

fun clean_parts :: "bool \<Rightarrow> string list \<Rightarrow> string list \<Rightarrow> string list" where
  "clean_parts rooted stack [] = rev stack"
| "clean_parts rooted stack (p # ps) =
     (if p = '''' \<or> p = ''.'' then clean_parts rooted stack ps
      else if p = ''..'' then
        (case stack of
           t # ts \<Rightarrow> if t = ''..'' then clean_parts rooted (p # stack) ps else clean_parts rooted ts ps
         | [] \<Rightarrow> if rooted then clean_parts rooted [] ps else clean_parts rooted [p] ps)
      else clean_parts rooted (p # stack) ps)"

fun join_slash :: "string list \<Rightarrow> string" where
  "join_slash [] = ''''"
| "join_slash [p] = p"
| "join_slash (p # ps) = p @ ''/'' @ join_slash ps"

definition clean_path :: "string \<Rightarrow> string" where
  "clean_path p =
     (let rooted = (take 1 p = ''/'');
          out = (if rooted then ''/'' else '''') @ join_slash (clean_parts rooted [] (split_slash p))
      in if out = '''' then ''.'' else out)"

definition dir_of :: "string \<Rightarrow> string" where
  "dir_of p = clean_path (rev (dropWhile (\<lambda>c. c \<noteq> CHR ''/'') (rev p)))"

text \<open>
  The name \<open>os.CreateTemp\<close> gives to a file of a directory, for the pattern \<open>calendar-binding-*.tmp\<close> and the
  random text it puts for the star.
\<close>

definition temp_path :: "string \<Rightarrow> string \<Rightarrow> string" where
  "temp_path dir rnd =
     (let name = ''calendar-binding-'' @ rnd @ ''.tmp''
      in if dir \<noteq> '''' \<and> last dir = CHR ''/'' then dir @ name else dir @ ''/'' @ name)"

section \<open>State\<close>

type_synonym file_system = "string \<Rightarrow> (string \<times> nat) option"

record cal_store =
  cst_path :: string
  cst_binding :: "calendar_binding option"

datatype store_error = ErrEmptyPath | ErrNilBinding | ErrAlreadyBound | ReadFailed string
  | UnmarshalFailed string | MarshalFailed string | MkdirFailed string | CreateFailed string
  | WriteFailed string | SyncFailed string | CloseFailed string | ChmodFailed string | RenameFailed string

text \<open>\<open>os.ReadFile\<close>: what the environment answers when it is not simply the file's content.\<close>

definition read_file :: "string option \<Rightarrow> file_system \<Rightarrow> string \<Rightarrow> (string option) + string" where
  "read_file fault fs path = (case fault of
     Some err \<Rightarrow> Inl (Some err)
   | None \<Rightarrow> (case fs path of None \<Rightarrow> Inl None | Some (data, _) \<Rightarrow> Inr data))"

definition new_cal_store :: "(string \<Rightarrow> string + calendar_binding) \<Rightarrow> string option \<Rightarrow> file_system
    \<Rightarrow> string \<Rightarrow> store_error + cal_store" where
  "new_cal_store unmarshal fault fs path =
     (if path = '''' then Inl ErrEmptyPath
      else (case read_file fault fs path of
        Inl None \<Rightarrow> Inr \<lparr>cst_path = path, cst_binding = None\<rparr>
      | Inl (Some err) \<Rightarrow> Inl (ReadFailed err)
      | Inr data \<Rightarrow> (case unmarshal data of
          Inl err \<Rightarrow> Inl (UnmarshalFailed err)
        | Inr b \<Rightarrow> Inr \<lparr>cst_path = path, cst_binding = Some b\<rparr>)))"

definition is_bound :: "cal_store \<Rightarrow> bool" where
  "is_bound s \<longleftrightarrow> cst_binding s \<noteq> None"

text \<open>The deep copy of \<open>Get\<close> is the value itself; the flag is whether there is one.\<close>

definition get_binding :: "cal_store \<Rightarrow> calendar_binding option \<times> bool" where
  "get_binding s = (case cst_binding s of None \<Rightarrow> (None, False) | Some b \<Rightarrow> (Some b, True))"

section \<open>Save\<close>

record save_env =
  sv_mkdir :: "string option"
  sv_create :: "string + string"
  sv_write :: "(nat \<times> string) option"
  sv_sync :: "string option"
  sv_close :: "string option"
  sv_chmod :: "string option"
  sv_rename :: "string option"
  sv_remove_fails :: bool

definition cleanup :: "save_env \<Rightarrow> string \<Rightarrow> file_system \<Rightarrow> file_system" where
  "cleanup env tmp fs = (if sv_remove_fails env then fs else fs(tmp := None))"

text \<open>
  The steps after the temporary file exists, with the file systems they leave, last one last. A
  failing write may have written some bytes; \<open>os.CreateTemp\<close> creates the file with mode 0600, which is \<open>0x180\<close>.
\<close>

definition write_and_rename :: "save_env \<Rightarrow> string \<Rightarrow> string \<Rightarrow> string \<Rightarrow> file_system
    \<Rightarrow> store_error option \<times> file_system list" where
  "write_and_rename env path tmp data fs =
     (let fs1 = fs(tmp \<mapsto> ('''', 0x180)) in
      case sv_write env of
        Some (n, err) \<Rightarrow> (let fs2 = fs1(tmp \<mapsto> (take n data, 0x180))
                         in (Some (WriteFailed err), [fs1, fs2, cleanup env tmp fs2]))
      | None \<Rightarrow>
         (let fs2 = fs1(tmp \<mapsto> (data, 0x180)) in
          case sv_sync env of
            Some err \<Rightarrow> (Some (SyncFailed err), [fs1, fs2, cleanup env tmp fs2])
          | None \<Rightarrow> (case sv_close env of
              Some err \<Rightarrow> (Some (CloseFailed err), [fs1, fs2, cleanup env tmp fs2])
            | None \<Rightarrow> (case sv_chmod env of
                Some err \<Rightarrow> (Some (ChmodFailed err), [fs1, fs2, cleanup env tmp fs2])
              | None \<Rightarrow>
                 (let fs3 = fs2(tmp \<mapsto> (data, 0x180)) in
                  case sv_rename env of
                    Some err \<Rightarrow> (Some (RenameFailed err), [fs1, fs2, fs3, cleanup env tmp fs3])
                  | None \<Rightarrow> (None, [fs1, fs2, fs3, (fs3(tmp := None))(path := fs3 tmp)]))))))"

definition save_binding :: "(calendar_binding \<Rightarrow> string + string) \<Rightarrow> save_env \<Rightarrow> calendar_binding option
    \<Rightarrow> cal_store \<times> file_system \<Rightarrow> store_error option \<times> cal_store \<times> file_system list" where
  "save_binding marshal env binding s = (case s of (st, fs) \<Rightarrow>
     (case binding of
        None \<Rightarrow> (Some ErrNilBinding, st, [fs])
      | Some b \<Rightarrow>
          if cst_binding st \<noteq> None then (Some ErrAlreadyBound, st, [fs])
          else (case marshal b of
            Inl err \<Rightarrow> (Some (MarshalFailed err), st, [fs])
          | Inr data \<Rightarrow>
             (let dir = dir_of (cst_path st);
                  mkdir = (if dir \<noteq> '''' \<and> dir \<noteq> ''.'' then sv_mkdir env else None)
              in case mkdir of
                Some err \<Rightarrow> (Some (MkdirFailed err), st, [fs])
              | None \<Rightarrow> (case sv_create env of
                  Inl err \<Rightarrow> (Some (CreateFailed err), st, [fs])
                | Inr rnd \<Rightarrow> (case write_and_rename env (cst_path st) (temp_path dir rnd) data fs of
                    (None, steps) \<Rightarrow> (None, st\<lparr>cst_binding := Some b\<rparr>, fs # steps)
                  | (Some err, steps) \<Rightarrow> (Some err, st, fs # steps)))))))"

text \<open>The documented behaviour of \<open>os.CreateTemp\<close>: the name is that of no existing file.\<close>

definition temp_fresh :: "save_env \<Rightarrow> string \<Rightarrow> file_system \<Rightarrow> bool" where
  "temp_fresh env path fs \<longleftrightarrow> (\<forall>rnd. sv_create env = Inr rnd \<longrightarrow>
     fs (temp_path (dir_of path) rnd) = None \<and> temp_path (dir_of path) rnd \<noteq> path)"

section \<open>The store binds once\<close>

text \<open>\<open>Save\<close> on the state of the store alone, for the contract.\<close>

definition save_state :: "((calendar_binding \<Rightarrow> string + string) \<times> save_env \<times> file_system)
    \<Rightarrow> calendar_binding \<Rightarrow> cal_store \<Rightarrow> store_error option \<times> cal_store" where
  "save_state e b st = (case e of (marshal, env, fs) \<Rightarrow>
     (case save_binding marshal env (Some b) (st, fs) of (r, st', _) \<Rightarrow> (r, st')))"

lemma save_binding_state:
  assumes "save_binding marshal env (Some b) (st, fs) = (r, st', tr)"
  shows "(cst_binding st \<noteq> None \<longrightarrow> r = Some ErrAlreadyBound \<and> st' = st \<and> tr = [fs])
    \<and> (r = None \<longrightarrow> st' = st\<lparr>cst_binding := Some b\<rparr>) \<and> (r \<noteq> None \<longrightarrow> st' = st)"
  using assms
  by (auto simp: save_binding_def Let_def split: sum.splits option.splits if_splits prod.splits)

lemma save_state_facts:
  assumes "save_state e c s = (q, s')"
  shows "(cst_binding s \<noteq> None \<longrightarrow> q \<noteq> None \<and> s' = s) \<and> (q = None \<longrightarrow> cst_binding s' = Some c)
    \<and> (q \<noteq> None \<longrightarrow> s' = s)"
proof -
  obtain marshal env fs where e: "e = (marshal, env, fs)" by (cases e) auto
  obtain tr where "save_binding marshal env (Some c) (s, fs) = (q, s', tr)"
    using assms by (auto simp: save_state_def e split: prod.splits)
  from save_binding_state [OF this] show ?thesis by auto
qed

interpretation calst: binding_store cst_binding save_state
proof
  fix s s' e b b' r x
  show "cst_binding s = Some b \<Longrightarrow> save_state e b' s = (r, s') \<Longrightarrow> r \<noteq> None \<and> cst_binding s' = Some b"
    using save_state_facts by fastforce
  show "cst_binding s = None \<Longrightarrow> save_state e b s = (None, s') \<Longrightarrow> cst_binding s' = Some b"
    using save_state_facts by blast
  show "cst_binding s = None \<Longrightarrow> save_state e b s = (Some x, s') \<Longrightarrow> cst_binding s' = None"
    using save_state_facts by fastforce
qed

text \<open>
  C21: the binding is made once. After any number of \<open>Save\<close> calls on an unbound store, whatever
  each of them met on the file system, either all failed and the store is unbound, or exactly one
  succeeded, and its binding is the one \<open>Get\<close> returns.
\<close>

theorem first_binding_is_final:
  assumes "cst_binding st = None" "calst.saves calls st = (rs, st')"
  shows "(None \<notin> set rs \<and> get_binding st' = (None, False))
    \<or> (\<exists>i < length calls. rs ! i = None \<and> get_binding st' = (Some (snd (calls ! i)), True)
         \<and> (\<forall>j < length calls. j \<noteq> i \<longrightarrow> rs ! j \<noteq> None))"
  using calst.saves_first_wins [OF assms] by (auto simp: get_binding_def)

section \<open>Crashes\<close>

definition path_states :: "string \<Rightarrow> file_system list \<Rightarrow> (string \<times> nat) option list" where
  "path_states path tr = map (\<lambda>fs. fs path) tr"

lemma write_and_rename_states:
  assumes "write_and_rename env path tmp data fs = (r, steps)" "tmp \<noteq> path"
  shows "(r = None \<longrightarrow> last steps = fs(tmp := None, path \<mapsto> (data, 0x180))
           \<and> (\<forall>f \<in> set steps. f path = fs path \<or> f path = Some (data, 0x180)))
    \<and> (r \<noteq> None \<longrightarrow> (\<forall>f \<in> set steps. f path = fs path)
           \<and> (sv_remove_fails env \<or> last steps = fs(tmp := None)))
    \<and> steps \<noteq> []"
  using assms
  by (auto simp: write_and_rename_def cleanup_def Let_def fun_upd_twist split: option.splits prod.splits)

lemma save_binding_steps:
  assumes "save_binding marshal env (Some b) (st, fs) = (r, st', tr)" "temp_fresh env (cst_path st) fs"
  obtains "r \<noteq> None" "tr = [fs]"
  | data tmp steps where "marshal b = Inr data" "tmp \<noteq> cst_path st" "fs(tmp := None) = fs"
      "write_and_rename env (cst_path st) tmp data fs = (r, steps)" "steps \<noteq> []" "tr = fs # steps"
proof -
  consider "r \<noteq> None" "tr = [fs]"
    | data tmp rnd steps where "marshal b = Inr data" "sv_create env = Inr rnd" "tmp = temp_path (dir_of (cst_path st)) rnd"
        "write_and_rename env (cst_path st) tmp data fs = (r, steps)" "tr = fs # steps"
    using assms(1)
    by (auto simp: save_binding_def Let_def split: sum.splits option.splits if_splits prod.splits)
  then show thesis
  proof cases
    case 2
    have f: "fs tmp = None" "tmp \<noteq> cst_path st" using assms(2) 2(2,3) by (auto simp: temp_fresh_def)
    then have "fs(tmp := None) = fs" by auto
    with that(2) 2 f write_and_rename_states [OF 2(4) f(2)] show ?thesis by blast
  qed (rule that(1))
qed

text \<open>
  C3: \<open>Save\<close> is atomic. At every step, so after a crash anywhere, the file at the store's path
  is what it was or the complete encoding of the binding with mode 0600; it is the latter at the
  end exactly when \<open>Save\<close> reports success; no other file is changed, and the temporary one is
  gone unless its removal failed.
\<close>

theorem save_is_atomic:
  assumes "save_binding marshal env (Some b) (st, fs) = (r, st', tr)" "temp_fresh env (cst_path st) fs"
  shows "(\<forall>f \<in> set tr. f (cst_path st) = fs (cst_path st) \<or> (\<exists>data. marshal b = Inr data \<and> f (cst_path st) = Some (data, 0x180)))
    \<and> (r = None \<longrightarrow> (\<exists>data. marshal b = Inr data \<and> last tr = fs(cst_path st \<mapsto> (data, 0x180))))
    \<and> (r \<noteq> None \<longrightarrow> last tr (cst_path st) = fs (cst_path st) \<and> (sv_remove_fails env \<or> last tr = fs))"
  using assms
proof (cases rule: save_binding_steps)
  case (2 data tmp steps)
  have "fs(tmp := None, cst_path st \<mapsto> x) = fs(cst_path st \<mapsto> x)" for x using 2(3) by simp
  with write_and_rename_states [OF 2(4,2)] 2(1,3,6) show ?thesis
    by (auto simp del: fun_upd_apply split: if_splits)
qed auto

text \<open>
  C22: what was saved is loaded. When \<open>Save\<close> succeeds and the codec decodes what it encoded, a
  store opened later on the same path holds the binding and refuses every other one.
\<close>

theorem saved_binding_reloads:
  assumes "save_binding marshal env (Some b) (st, fs) = (None, st', tr)"
    and "temp_fresh env (cst_path st) fs" "cst_path st \<noteq> ''''"
    and "\<And>data. marshal b = Inr data \<Longrightarrow> unmarshal data = Inr b"
  shows "\<exists>st2. new_cal_store unmarshal None (last tr) (cst_path st) = Inr st2
    \<and> get_binding st2 = (Some b, True) \<and> cst_binding st' = Some b
    \<and> (\<forall>env2 b2 fs2. fst (save_binding marshal env2 (Some b2) (st2, fs2)) = Some ErrAlreadyBound)"
proof -
  obtain data where d: "marshal b = Inr data" "last tr = fs(cst_path st \<mapsto> (data, 0x180))"
    using assms(1,2)
  proof (cases rule: save_binding_steps)
    case (2 data tmp steps)
    with write_and_rename_states [OF 2(4,2)] that show ?thesis by simp
  qed simp
  have "cst_binding st' = Some b" using save_binding_state [OF assms(1)] by simp
  then show ?thesis
    using d assms(3) assms(4) [OF d(1)]
    by (simp add: new_cal_store_def read_file_def get_binding_def save_binding_def)
qed

section \<open>A concrete save\<close>

definition demo_binding :: calendar_binding where
  "demo_binding = \<lparr>cb_email = ''a@b.c'', cb_calendar_id = ''primary'', cb_access_token = ''t'',
     cb_refresh_token = ''r'', cb_token_expiry_unix = 1, cb_linked_at_unix = 2\<rparr>"

definition demo_save_env :: save_env where
  "demo_save_env = \<lparr>sv_mkdir = None, sv_create = Inr ''42'', sv_write = None, sv_sync = None,
     sv_close = None, sv_chmod = None, sv_rename = None, sv_remove_fails = False\<rparr>"

definition demo_store :: cal_store where
  "demo_store = \<lparr>cst_path = ''/data/cal.pb'', cst_binding = None\<rparr>"

lemmas demo_save_defs = demo_save_env_def demo_store_def temp_fresh_def

lemma demo_temp: "temp_path (dir_of ''/data/cal.pb'') ''42'' = ''/data/calendar-binding-42.tmp''"
  by code_simp

lemma demo_fresh: "temp_fresh demo_save_env (cst_path demo_store) Map.empty"
  by (simp add: demo_save_defs demo_temp)

lemma demo_save:
  "\<exists>tr. save_binding (\<lambda>_. Inr ''abc'') demo_save_env (Some demo_binding) (demo_store, Map.empty)
     = (None, demo_store\<lparr>cst_binding := Some demo_binding\<rparr>, tr)"
  by (simp add: save_binding_def write_and_rename_def demo_save_defs Let_def)

lemma save_is_atomic_witness:
  "\<exists>st' tr. save_binding (\<lambda>_. Inr ''abc'') demo_save_env (Some demo_binding) (demo_store, Map.empty) = (None, st', tr)
     \<and> last tr = Map.empty(''/data/cal.pb'' \<mapsto> (''abc'', 0x180))"
proof -
  obtain tr where tr: "save_binding (\<lambda>_. Inr ''abc'') demo_save_env (Some demo_binding) (demo_store, Map.empty)
      = (None, demo_store\<lparr>cst_binding := Some demo_binding\<rparr>, tr)" using demo_save by blast
  from save_is_atomic [OF tr demo_fresh] tr show ?thesis by (simp add: demo_store_def)
qed

lemma first_binding_is_final_witness:
  "\<exists>st'. calst.saves [((\<lambda>_. Inr ''abc'', demo_save_env, Map.empty), demo_binding)] demo_store = ([None], st')
     \<and> get_binding st' = (Some demo_binding, True)"
proof -
  obtain tr where tr: "save_binding (\<lambda>_. Inr ''abc'') demo_save_env (Some demo_binding) (demo_store, Map.empty)
      = (None, demo_store\<lparr>cst_binding := Some demo_binding\<rparr>, tr)" using demo_save by blast
  then have c: "calst.saves [((\<lambda>_. Inr ''abc'', demo_save_env, Map.empty), demo_binding)] demo_store
      = ([None], demo_store\<lparr>cst_binding := Some demo_binding\<rparr>)" by (simp add: save_state_def)
  have u: "cst_binding demo_store = None" by (simp add: demo_store_def)
  from first_binding_is_final [OF u c] c show ?thesis by simp
qed

lemma saved_binding_reloads_witness:
  "\<exists>tr st2. save_binding (\<lambda>_. Inr ''abc'') demo_save_env (Some demo_binding) (demo_store, Map.empty)
       = (None, demo_store\<lparr>cst_binding := Some demo_binding\<rparr>, tr)
     \<and> new_cal_store (\<lambda>_. Inr demo_binding) None (last tr) ''/data/cal.pb'' = Inr st2
     \<and> get_binding st2 = (Some demo_binding, True)"
proof -
  obtain tr where tr: "save_binding (\<lambda>_. Inr ''abc'') demo_save_env (Some demo_binding) (demo_store, Map.empty)
      = (None, demo_store\<lparr>cst_binding := Some demo_binding\<rparr>, tr)" using demo_save by blast
  have "cst_path demo_store \<noteq> ''''" by (simp add: demo_store_def)
  from saved_binding_reloads [OF tr demo_fresh this, of "\<lambda>_. Inr demo_binding"] tr show ?thesis
    by (auto simp: demo_store_def)
qed

end
