(* ===== verification/CalManager.thy ===== *)
theory CalManager
  imports PbMessages GoStrings
begin

text \<open>
  \<open>internal/calendar/manager.go\<close>: the OAuth manager. The OAuth library is outside the repository:
  the URL it builds is the parameter \<open>auth_code_url\<close>, what its exchange answered is part of the
  environment of \<open>ExchangeCode\<close>. The nonce is the 32 random bytes, encoded by base64 for URLs.
\<close>

section \<open>Configuration\<close>

record manager_config =
  mc_client_id :: string
  mc_client_secret :: string
  mc_redirect_url :: string
  mc_auth_url :: string
  mc_token_url :: string
  mc_user_info_url :: string

record oauth_config =
  oc_client_id :: string
  oc_client_secret :: string
  oc_redirect_url :: string
  oc_scopes :: "string list"
  oc_auth_url :: string
  oc_token_url :: string

record cal_manager =
  cm_cfg :: manager_config
  cm_oauth :: oauth_config
  cm_user_info_url :: string

definition ScopeCalendarEventsReadOnly :: string where
  "ScopeCalendarEventsReadOnly = ''https://www.googleapis.com/auth/calendar.events.readonly''"
definition ScopeUserInfoEmail :: string where
  "ScopeUserInfoEmail = ''https://www.googleapis.com/auth/userinfo.email''"
definition DefaultUserInfoURL :: string where
  "DefaultUserInfoURL = ''https://www.googleapis.com/oauth2/v2/userinfo''"

text \<open>\<open>google\<close> is the pair of endpoint URLs of the OAuth library.\<close>

definition new_manager :: "string \<times> string \<Rightarrow> manager_config \<Rightarrow> cal_manager" where
  "new_manager google cfg =
     \<lparr>cm_cfg = cfg,
      cm_oauth = \<lparr>oc_client_id = mc_client_id cfg, oc_client_secret = mc_client_secret cfg,
        oc_redirect_url = mc_redirect_url cfg,
        oc_scopes = [ScopeCalendarEventsReadOnly, ScopeUserInfoEmail],
        oc_auth_url = (if mc_auth_url cfg = '''' then fst google else mc_auth_url cfg),
        oc_token_url = (if mc_token_url cfg = '''' then snd google else mc_token_url cfg)\<rparr>,
      cm_user_info_url = (if mc_user_info_url cfg = '''' then DefaultUserInfoURL else mc_user_info_url cfg)\<rparr>"

definition manager_configured :: "cal_manager option \<Rightarrow> bool" where
  "manager_configured m = (case m of None \<Rightarrow> False
     | Some x \<Rightarrow> \<not> blank (mc_client_id (cm_cfg x)) \<and> \<not> blank (mc_client_secret (cm_cfg x)))"

section \<open>The state nonce\<close>

definition b64_alphabet :: string where
  "b64_alphabet = ''ABCDEFGHIJKLMNOPQRSTUVWXYZabcdefghijklmnopqrstuvwxyz0123456789-_''"

definition b64_char :: "nat \<Rightarrow> char" where
  "b64_char n = b64_alphabet ! n"

text \<open>\<open>base64.URLEncoding.EncodeToString\<close>: three bytes become four characters, the rest is padded.\<close>

fun b64_encode :: "byte8 list \<Rightarrow> string" where
  "b64_encode [] = []"
| "b64_encode [a] = [b64_char (unat a div 4), b64_char (unat a mod 4 * 16), CHR ''='', CHR ''='']"
| "b64_encode [a, b] = [b64_char (unat a div 4), b64_char (unat a mod 4 * 16 + unat b div 16),
     b64_char (unat b mod 16 * 4), CHR ''='']"
| "b64_encode (a # b # c # xs) = b64_char (unat a div 4) # b64_char (unat a mod 4 * 16 + unat b div 16)
     # b64_char (unat b mod 16 * 4 + unat c div 64) # b64_char (unat c mod 64) # b64_encode xs"

text \<open>Random bytes, or the error of \<open>rand.Read\<close>; the URL and the state.\<close>

definition GenerateAuthURL :: "(oauth_config \<Rightarrow> string \<Rightarrow> (string \<times> string) list \<Rightarrow> string) \<Rightarrow> cal_manager
    \<Rightarrow> string + byte8 list \<Rightarrow> string + (string \<times> string)" where
  "GenerateAuthURL auth_code_url m nonce = (case nonce of
     Inl err \<Rightarrow> Inl (''failed to generate random state nonce: '' @ err)
   | Inr bytes \<Rightarrow>
      (let state = b64_encode bytes
       in Inr (auth_code_url (cm_oauth m) state [(''access_type'', ''offline''), (''prompt'', ''consent'')], state)))"

section \<open>ExchangeCode\<close>

record oauth_token =
  ot_access_token :: string
  ot_refresh_token :: string
  ot_expiry :: gtime

record exchange_env =
  xe_token :: "string + oauth_token"
  xe_new_request :: "string option"
  xe_response :: "string + (int \<times> string)"
  xe_now :: gtime

datatype exchange_error = ErrEmptyCode | ErrMissingEmail | ExchangeFailed string | RequestFailed string
  | ProfileFailed string | ProfileStatus int string | DecodeFailed string

definition ExchangeCode :: "(string \<Rightarrow> string + string) \<Rightarrow> exchange_env \<Rightarrow> string
    \<Rightarrow> exchange_error + calendar_binding" where
  "ExchangeCode decode_email env code =
     (if blank code then Inl ErrEmptyCode
      else (case xe_token env of
        Inl err \<Rightarrow> Inl (ExchangeFailed err)
      | Inr token \<Rightarrow> (case xe_new_request env of
          Some err \<Rightarrow> Inl (RequestFailed err)
        | None \<Rightarrow> (case xe_response env of
            Inl err \<Rightarrow> Inl (ProfileFailed err)
          | Inr (status, body) \<Rightarrow>
              if status \<noteq> 200 then Inl (ProfileStatus status body)
              else (case decode_email body of
                Inl err \<Rightarrow> Inl (DecodeFailed err)
              | Inr email \<Rightarrow>
                  if blank email then Inl ErrMissingEmail
                  else Inr \<lparr>cb_email = email, cb_calendar_id = ''primary'',
                    cb_access_token = ot_access_token token, cb_refresh_token = ot_refresh_token token,
                    cb_token_expiry_unix = (if ot_expiry token = 0 then 0 else unix_of (ot_expiry token)),
                    cb_linked_at_unix = unix_of (xe_now env)\<rparr>)))))"

section \<open>Facts on base64\<close>

lemma b64_alphabet_distinct: "distinct b64_alphabet" "length b64_alphabet = 64" "CHR ''='' \<notin> set b64_alphabet"
  unfolding b64_alphabet_def by code_simp+

lemma b64_char_inj: "i < 64 \<Longrightarrow> j < 64 \<Longrightarrow> b64_char i = b64_char j \<longleftrightarrow> i = j"
  using b64_alphabet_distinct by (simp add: b64_char_def nth_eq_iff_index_eq)

lemma b64_char_in: "i < 64 \<Longrightarrow> b64_char i \<in> set b64_alphabet"
  using b64_alphabet_distinct(2) by (simp add: b64_char_def)

lemma b64_char_pad: "i < 64 \<Longrightarrow> b64_char i \<noteq> CHR ''=''"
  using b64_char_in b64_alphabet_distinct(3) by metis

lemma unat_byte: "unat (a :: byte8) < 256"
  using unsigned_less [of a] by simp

lemma sextets:
  fixes a b c :: byte8
  shows "unat a div 4 < 64" "unat a mod 4 * 16 + unat b div 16 < 64" "unat b mod 16 * 4 + unat c div 64 < 64"
    "unat c mod 64 < 64" "unat a mod 4 * 16 < 64" "unat b mod 16 * 4 < 64"
  using unat_byte [of a] unat_byte [of b] unat_byte [of c] by linarith+

lemma digits_unique: "(i::nat) * k + x = j * k + y \<Longrightarrow> x < k \<Longrightarrow> y < k \<Longrightarrow> i = j \<and> x = y"
proof -
  assume a: "i * k + x = j * k + y" "x < k" "y < k"
  have "i = (i * k + x) div k" "j = (j * k + y) div k" using a(2,3) by simp_all
  then have "i = j" using a(1) by simp
  then show "i = j \<and> x = y" using a(1) by simp
qed

lemma sextets_inj:
  fixes a b c a' b' c' :: byte8
  shows "unat a div 4 = unat a' div 4 \<Longrightarrow> unat a mod 4 * 16 + unat b div 16 = unat a' mod 4 * 16 + unat b' div 16
     \<Longrightarrow> a = a' \<and> unat b div 16 = unat b' div 16"
    "unat b div 16 = unat b' div 16 \<Longrightarrow> unat b mod 16 * 4 + unat c div 64 = unat b' mod 16 * 4 + unat c' div 64
     \<Longrightarrow> b = b' \<and> unat c div 64 = unat c' div 64"
    "unat c div 64 = unat c' div 64 \<Longrightarrow> unat c mod 64 = unat c' mod 64 \<Longrightarrow> c = c'"
proof -
  note bs = unat_byte [of a] unat_byte [of b] unat_byte [of c] unat_byte [of a'] unat_byte [of b'] unat_byte [of c']
  have lt: "unat b div 16 < 16" "unat b' div 16 < 16" "unat c div 64 < 4" "unat c' div 64 < 4" using bs by linarith+
  { assume 1: "unat a div 4 = unat a' div 4" "unat a mod 4 * 16 + unat b div 16 = unat a' mod 4 * 16 + unat b' div 16"
    have "unat a mod 4 = unat a' mod 4" "unat b div 16 = unat b' div 16" using digits_unique [OF 1(2)] lt(1,2) by simp_all
    moreover from this(1) have "unat a = unat a'" using 1(1) by (metis div_mult_mod_eq)
    ultimately show "a = a' \<and> unat b div 16 = unat b' div 16" by (simp add: word_unat_eq_iff) }
  { assume 1: "unat b div 16 = unat b' div 16" "unat b mod 16 * 4 + unat c div 64 = unat b' mod 16 * 4 + unat c' div 64"
    have "unat b mod 16 = unat b' mod 16" "unat c div 64 = unat c' div 64" using digits_unique [OF 1(2)] lt(3,4) by simp_all
    moreover from this(1) have "unat b = unat b'" using 1(1) by (metis div_mult_mod_eq)
    ultimately show "b = b' \<and> unat c div 64 = unat c' div 64" by (simp add: word_unat_eq_iff) }
  show "unat c div 64 = unat c' div 64 \<Longrightarrow> unat c mod 64 = unat c' mod 64 \<Longrightarrow> c = c'"
    by (metis div_mult_mod_eq word_unat_eq_iff)
qed

lemma b64_length: "length (b64_encode bs) = (length bs + 2) div 3 * 4"
proof (induction bs rule: b64_encode.induct)
  case (4 a b c xs)
  have "(length (a # b # c # xs) + 2) div 3 = Suc ((length xs + 2) div 3)" by simp
  with 4 show ?case by (simp del: length_Cons)
qed auto

lemma b64_chars: "set (b64_encode bs) \<subseteq> insert (CHR ''='') (set b64_alphabet)"
  by (induction bs rule: b64_encode.induct) (auto intro!: b64_char_in sextets)

lemma b64_inj: "length xs = length ys \<Longrightarrow> b64_encode xs = b64_encode ys \<Longrightarrow> xs = ys"
proof (induction xs arbitrary: ys rule: b64_encode.induct)
  case (2 a)
  then obtain a' where y: "ys = [a']" by (cases ys) auto
  have "unat a div 4 = unat a' div 4" "unat a mod 4 * 16 + unat (0::byte8) div 16 = unat a' mod 4 * 16 + unat (0::byte8) div 16"
    using 2 y by (simp_all add: b64_char_inj sextets)
  then show ?case using sextets_inj(1) y by blast
next
  case (3 a b)
  then obtain a' b' where y: "ys = [a', b']" by (cases ys; cases "tl ys") auto
  have e: "unat a div 4 = unat a' div 4" "unat a mod 4 * 16 + unat b div 16 = unat a' mod 4 * 16 + unat b' div 16"
      "unat b mod 16 * 4 + unat (0::byte8) div 64 = unat b' mod 16 * 4 + unat (0::byte8) div 64"
    using 3 y by (simp_all add: b64_char_inj sextets)
  from sextets_inj(1) [OF e(1,2)] sextets_inj(2) [OF _ e(3)] show ?case using y by blast
next
  case (4 a b c xs)
  then obtain a' b' c' ys' where y: "ys = a' # b' # c' # ys'" by (auto simp: length_Suc_conv Suc_length_conv)
  have e: "unat a div 4 = unat a' div 4" "unat a mod 4 * 16 + unat b div 16 = unat a' mod 4 * 16 + unat b' div 16"
      "unat b mod 16 * 4 + unat c div 64 = unat b' mod 16 * 4 + unat c' div 64" "unat c mod 64 = unat c' mod 64"
    using 4(3) y by (simp_all add: b64_char_inj sextets)
  from sextets_inj(1) [OF e(1,2)] sextets_inj(2) [OF _ e(3)] sextets_inj(3) [OF _ e(4)]
  have "a = a'" "b = b'" "c = c'" by blast+
  moreover have "xs = ys'" using 4 y by simp
  ultimately show ?case using y by simp
qed simp

section \<open>Correctness\<close>

text \<open>
  The CSRF state names its nonce. With 32 random bytes the state has 44 characters of the
  URL-safe alphabet and padding, and two different nonces never give the same state.
\<close>

theorem state_names_nonce:
  assumes "length n1 = 32" "length n2 = 32"
    and "GenerateAuthURL auth m (Inr n1) = Inr (u1, s1)" "GenerateAuthURL auth m (Inr n2) = Inr (u2, s2)"
  shows "length s1 = 44 \<and> set s1 \<subseteq> insert (CHR ''='') (set b64_alphabet) \<and> (s1 = s2 \<longleftrightarrow> n1 = n2)"
  using assms b64_length [of n1] b64_chars [of n1] b64_inj [of n1 n2] by (auto simp: GenerateAuthURL_def Let_def)

lemma state_names_nonce_witness:
  "b64_encode (replicate 32 0) \<noteq> b64_encode (replicate 32 1)"
proof -
  let ?m = "new_manager ('''', '''') \<lparr>mc_client_id = ''i'', mc_client_secret = ''s'', mc_redirect_url = '''',
    mc_auth_url = '''', mc_token_url = '''', mc_user_info_url = ''''\<rparr>"
  have g: "GenerateAuthURL (\<lambda>_ s _. s) ?m (Inr n) = Inr (b64_encode n, b64_encode n)" for n
    by (simp add: GenerateAuthURL_def Let_def)
  have r: "replicate 32 (0::byte8) \<noteq> replicate 32 1" by (simp add: replicate_eq_replicate)
  from state_names_nonce [OF _ _ g g, of "replicate 32 0" "replicate 32 1"] r show ?thesis by simp
qed

end
