(* ===== verification/GoTime.thy ===== *)
theory GoTime
  imports GoStrings
begin

text \<open>
  The calendar of Go's package \<open>time\<close>: the date of an instant, the three layouts the bridge
  prints, and the parser of RFC 3339 texts. Days count from January 1 of year 1, a Monday. The
  offset of the local time zone is an argument, in seconds.
\<close>

section \<open>Dates\<close>

definition is_leap :: "int \<Rightarrow> bool" where
  "is_leap y \<longleftrightarrow> y mod 4 = 0 \<and> (y mod 100 \<noteq> 0 \<or> y mod 400 = 0)"

definition days_before_year :: "int \<Rightarrow> int" where
  "days_before_year y = (y - 1) * 365 + (y - 1) div 4 - (y - 1) div 100 + (y - 1) div 400"

definition month_starts :: "bool \<Rightarrow> int list" where
  "month_starts leap = (if leap then [0, 31, 60, 91, 121, 152, 182, 213, 244, 274, 305, 335, 366]
     else [0, 31, 59, 90, 120, 151, 181, 212, 243, 273, 304, 334, 365])"

definition days_in :: "int \<Rightarrow> int \<Rightarrow> int" where
  "days_in m y = month_starts (is_leap y) ! nat m - month_starts (is_leap y) ! nat (m - 1)"

definition day_number :: "int \<Rightarrow> int \<Rightarrow> int \<Rightarrow> int" where
  "day_number y m d = days_before_year y + month_starts (is_leap y) ! nat (m - 1) + (d - 1)"

text \<open>The year of a day and the day of that year, by cycles of 400, 100, 4 and 1 years.\<close>

definition year_of_day :: "int \<Rightarrow> int \<times> int" where
  "year_of_day day =
     (let n400 = day div 146097; d1 = day mod 146097;
          n100 = min 3 (d1 div 36524); d2 = d1 - 36524 * n100;
          n4 = d2 div 1461; d3 = d2 mod 1461;
          n1 = min 3 (d3 div 365)
      in (400 * n400 + 100 * n100 + 4 * n4 + n1 + 1, d3 - 365 * n1))"

definition month_of :: "bool \<Rightarrow> int \<Rightarrow> int" where
  "month_of leap yday = int (length (filter (\<lambda>s. s \<le> yday) (month_starts leap)))"

record date_time =
  dt_year :: int
  dt_month :: int
  dt_day :: int
  dt_hour :: int
  dt_minute :: int
  dt_second :: int
  dt_weekday :: int

definition date_of :: "int \<Rightarrow> gtime \<Rightarrow> date_time" where
  "date_of offset t =
     (let secs = t div second + offset;
          day = secs div 86400; s = secs mod 86400;
          (y, yday) = year_of_day day;
          m = month_of (is_leap y) yday
      in \<lparr>dt_year = y, dt_month = m, dt_day = yday - month_starts (is_leap y) ! nat (m - 1) + 1,
          dt_hour = s div 3600, dt_minute = s mod 3600 div 60, dt_second = s mod 60,
          dt_weekday = day mod 7\<rparr>)"

section \<open>Formats\<close>

definition pad4 :: "int \<Rightarrow> string" where
  "pad4 n = (if 0 \<le> n \<and> n < 10 then ''000'' @ itoa n else if 0 \<le> n \<and> n < 100 then ''00'' @ itoa n
     else if 0 \<le> n \<and> n < 1000 then ''0'' @ itoa n else itoa n)"

text \<open>\<open>t.UTC().Format(time.RFC3339)\<close>, for years from 0.\<close>

definition format_rfc3339_utc :: "gtime \<Rightarrow> string" where
  "format_rfc3339_utc t = (let d = date_of 0 t in
     pad4 (dt_year d) @ ''-'' @ pad2 (dt_month d) @ ''-'' @ pad2 (dt_day d) @ ''T''
       @ pad2 (dt_hour d) @ '':'' @ pad2 (dt_minute d) @ '':'' @ pad2 (dt_second d) @ ''Z'')"

definition weekday_names :: "string list" where
  "weekday_names = [''Mon'', ''Tue'', ''Wed'', ''Thu'', ''Fri'', ''Sat'', ''Sun'']"

definition month_names :: "string list" where
  "month_names = [''Jan'', ''Feb'', ''Mar'', ''Apr'', ''May'', ''Jun'', ''Jul'', ''Aug'', ''Sep'',
     ''Oct'', ''Nov'', ''Dec'']"

text \<open>The layouts \<open>Mon Jan 02\<close> and \<open>15:04\<close> of the local time.\<close>

definition format_day :: "int \<Rightarrow> gtime \<Rightarrow> string" where
  "format_day offset t = (let d = date_of offset t in
     weekday_names ! nat (dt_weekday d) @ '' '' @ month_names ! nat (dt_month d - 1) @ '' '' @ pad2 (dt_day d))"

definition format_clock :: "int \<Rightarrow> gtime \<Rightarrow> string" where
  "format_clock offset t = (let d = date_of offset t in pad2 (dt_hour d) @ '':'' @ pad2 (dt_minute d))"

section \<open>RFC 3339\<close>

text \<open>
  \<open>time.Parse(time.RFC3339, s)\<close>. As in Go, the hour may have one digit, a fraction of a second
  may follow a period or a comma and counts to the nanosecond, and an offset may reach 24:60.
\<close>

definition take_num :: "nat \<Rightarrow> string \<Rightarrow> (int \<times> string) option" where
  "take_num n s = (if length (take n s) = n \<and> list_all is_digit (take n s)
     then Some (int (digits_val (take n s)), drop n s) else None)"

definition take_hour :: "string \<Rightarrow> (int \<times> string) option" where
  "take_hour s = (case take_num 2 s of Some r \<Rightarrow> Some r
     | None \<Rightarrow> take_num 1 s)"

definition take_char :: "char \<Rightarrow> string \<Rightarrow> string option" where
  "take_char c s = (case s of x # xs \<Rightarrow> if x = c then Some xs else None | [] \<Rightarrow> None)"

definition take_fraction :: "string \<Rightarrow> int \<times> string" where
  "take_fraction s = (case s of
     c # d # _ \<Rightarrow>
       if (c = CHR ''.'' \<or> c = CHR '','') \<and> is_digit d
       then (let ds = takeWhile is_digit (tl s); k = take 9 ds
             in (int (digits_val k) * 10 ^ (9 - length k), drop (length ds) (tl s)))
       else (0, s)
   | _ \<Rightarrow> (0, s))"

definition take_zone :: "string \<Rightarrow> (int \<times> string) option" where
  "take_zone s = (case s of
     [] \<Rightarrow> None
   | c # r \<Rightarrow>
      if c = CHR ''Z'' then Some (0, r)
      else (case take_num 2 r of None \<Rightarrow> None
        | Some (hh, r1) \<Rightarrow> (case take_char (CHR '':'') r1 of None \<Rightarrow> None
        | Some r2 \<Rightarrow> (case take_num 2 r2 of None \<Rightarrow> None
        | Some (mm, r3) \<Rightarrow>
            if hh > 24 \<or> mm > 60 then None
            else if c = CHR ''+'' then Some ((hh * 60 + mm) * 60, r3)
            else if c = CHR ''-'' then Some (- ((hh * 60 + mm) * 60), r3)
            else None))))"

definition option_then :: "'a option \<Rightarrow> ('a \<Rightarrow> 'b option) \<Rightarrow> 'b option" where
  "option_then x f = (case x of None \<Rightarrow> None | Some a \<Rightarrow> f a)"

definition parse_rfc3339 :: "string \<Rightarrow> gtime option" where
  "parse_rfc3339 s =
     option_then (take_num 4 s) (\<lambda>(y, s). option_then (take_char (CHR ''-'') s) (\<lambda>s.
     option_then (take_num 2 s) (\<lambda>(mo, s). option_then (take_char (CHR ''-'') s) (\<lambda>s.
     option_then (take_num 2 s) (\<lambda>(d, s). option_then (take_char (CHR ''T'') s) (\<lambda>s.
     option_then (take_hour s) (\<lambda>(h, s). option_then (take_char (CHR '':'') s) (\<lambda>s.
     option_then (take_num 2 s) (\<lambda>(mi, s). option_then (take_char (CHR '':'') s) (\<lambda>s.
     option_then (take_num 2 s) (\<lambda>(sec, s).
       (let (nanos, s) = take_fraction s in
     option_then (take_zone s) (\<lambda>(zone, s).
       if s = '''' \<and> 1 \<le> mo \<and> mo \<le> 12 \<and> 1 \<le> d \<and> d \<le> days_in mo y \<and> h < 24 \<and> mi < 60 \<and> sec < 60
       then Some (((day_number y mo d * 86400 + h * 3600 + mi * 60 + sec) - zone) * second + nanos)
       else None)))))))))))))"

section \<open>Facts\<close>

lemma itoa_range: "0 \<le> n \<Longrightarrow> n < 10 ^ k \<Longrightarrow> 0 < k \<Longrightarrow> length (itoa n) \<le> k"
proof -
  assume a: "0 \<le> n" "n < 10 ^ k" "0 < k"
  have "nat n < 10 ^ k" using a by (simp add: nat_less_iff)
  then show "length (itoa n) \<le> k" using a length_nat_digits by (simp add: itoa_def)
qed

lemma length_pad2: "0 \<le> n \<Longrightarrow> n < 100 \<Longrightarrow> length (pad2 n) = 2"
proof -
  assume a: "0 \<le> n" "n < 100"
  show "length (pad2 n) = 2"
  proof (cases "n < 10")
    case True
    then have "length (itoa n) \<le> 1" using itoa_range [of n 1] a by simp
    moreover have "itoa n \<noteq> []" by (simp add: itoa_def)
    ultimately have "length (itoa n) = 1" by (cases "itoa n") auto
    then show ?thesis using True a by (simp add: pad2_def)
  next
    case False
    have "nat_digits (nat n) = nat_digits (nat n div 10) @ [digit_char (nat n mod 10)]"
      using False by (subst nat_digits.simps) simp
    moreover have "nat n div 10 < 10" using a by linarith
    then have "length (nat_digits (nat n div 10)) = 1" by (subst nat_digits.simps) simp
    ultimately show ?thesis using False a by (simp add: pad2_def itoa_def)
  qed
qed

lemma date_of_ranges:
  "0 \<le> dt_hour (date_of z t) \<and> dt_hour (date_of z t) < 24 \<and> 0 \<le> dt_minute (date_of z t) \<and> dt_minute (date_of z t) < 60
   \<and> 0 \<le> dt_weekday (date_of z t) \<and> dt_weekday (date_of z t) < 7"
proof -
  have "0 \<le> (t div second + z) mod 86400" "(t div second + z) mod 86400 < 86400" by simp_all
  then show ?thesis by (auto simp: date_of_def Let_def case_prod_beta)
qed

lemma year_of_day_yday: "0 \<le> snd (year_of_day day) \<and> snd (year_of_day day) \<le> 365"
proof -
  have "0 \<le> d - 365 * min 3 (d div 365) \<and> d - 365 * min 3 (d div 365) \<le> 365" if "0 \<le> d" "d < 1461" for d :: int
  proof (cases "d div 365 \<le> 3")
    case True
    have "d - 365 * (d div 365) = d mod 365" by (simp add: minus_mult_div_eq_mod)
    moreover have "0 \<le> d mod 365" "d mod 365 < 365" by simp_all
    ultimately show ?thesis using True by (simp add: min_absorb2)
  next
    case False
    then have "365 * 4 \<le> d" by linarith
    then show ?thesis using False that by simp
  qed
  note key = this
  have "\<exists>x. snd (year_of_day day) = x mod 1461 - 365 * min 3 (x mod 1461 div 365)"
    unfolding year_of_day_def Let_def snd_conv by (rule exI) (rule refl)
  then obtain x where x: "snd (year_of_day day) = x mod 1461 - 365 * min 3 (x mod 1461 div 365)" ..
  have "0 \<le> x mod 1461" "x mod 1461 < 1461" by simp_all
  from key [OF this] show ?thesis unfolding x .
qed

lemma month_of_range: "0 \<le> yday \<Longrightarrow> yday \<le> 365 \<Longrightarrow> 1 \<le> month_of leap yday \<and> month_of leap yday \<le> 13"
  by (auto simp: month_of_def month_starts_def)

lemma last_day_is_leap:
  assumes "year_of_day day = (y, 365)"
  shows "is_leap y"
proof -
  define a d1 where "a = day div 146097" and "d1 = day mod 146097"
  define b d2 where "b = min 3 (d1 div 36524)" and "d2 = d1 - 36524 * b"
  define c d3 where "c = d2 div 1461" and "d3 = d2 mod 1461"
  define n where "n = min 3 (d3 div 365)"
  have y: "y = 400 * a + 100 * b + 4 * c + n + 1" and d: "d3 - 365 * n = 365"
    using assms unfolding year_of_day_def Let_def a_def d1_def b_def d2_def c_def d3_def n_def prod.inject
    by (simp_all only: add.assoc)
  have d1: "0 \<le> d1" "d1 < 146097" and d3: "0 \<le> d3" "d3 < 1461" unfolding d1_def d3_def by simp_all
  have "n = 3" using d d3 unfolding n_def by (auto simp: min_def split: if_splits)
  then have d3': "d3 = 1460" using d by simp
  have d2: "d2 = 1461 * c + 1460" using d3' unfolding c_def d3_def by (metis div_mult_mod_eq mult.commute)
  have b: "0 \<le> b" "b \<le> 3" "b < 3 \<Longrightarrow> d2 < 36524" "b = 3 \<Longrightarrow> d2 \<le> 36524" "0 \<le> d2"
    using d1 unfolding b_def d2_def by (auto simp: min_def split: if_splits)
  then have c: "0 \<le> c" "b < 3 \<Longrightarrow> c < 24" "b = 3 \<Longrightarrow> c \<le> 24" using d2 by auto
  have y': "y = 400 * a + 100 * b + 4 * (c + 1)" using y \<open>n = 3\<close> by simp
  then have m4: "y mod 4 = 0" by presburger
  show ?thesis
  proof (cases "b = 3 \<and> c = 24")
    case True
    then have "y = 400 * (a + 1)" using y' by simp
    then show ?thesis using m4 by (simp add: is_leap_def)
  next
    case False
    then have "c < 24" using c b by (cases "b = 3") auto
    have "y = 4 * (c + 1) + 100 * (4 * a + b)" using y' by simp
    then have "y mod 100 = 4 * (c + 1) mod 100" by (metis mod_mult_self2)
    then have "y mod 100 = 4 * (c + 1)" using \<open>c < 24\<close> c(1) by simp
    then show ?thesis using m4 c(1) by (simp add: is_leap_def)
  qed
qed

lemma date_of_month: "1 \<le> dt_month (date_of z t) \<and> dt_month (date_of z t) \<le> 12"
proof -
  obtain y yday where e: "year_of_day ((t div second + z) div 86400) = (y, yday)" by fastforce
  have r: "0 \<le> yday" "yday \<le> 365" using year_of_day_yday [of "(t div second + z) div 86400"] e by simp_all
  have l: "yday = 365 \<Longrightarrow> is_leap y" using last_day_is_leap e by blast
  have "1 \<le> month_of (is_leap y) yday" using month_of_range [OF r] by simp
  moreover have "month_of (is_leap y) yday \<le> 12"
    using r l by (cases "is_leap y"; cases "yday = 365") (auto simp: month_of_def month_starts_def)
  ultimately show ?thesis by (simp add: date_of_def Let_def e)
qed

end
