(* ===== verification/Poller.thy ===== *)
theory Poller
  imports CalStore CalManager GoTime Telemetry "HOL-Library.List_Lexorder" "HOL-Library.Char_ord"
    "HOL-Library.Product_Lexorder"
begin

text \<open>
  \<open>internal/calendar/poller.go\<close>: the poller of the calendar. Its state is the configuration, the
  store, whether there are a manager and an HTTP client of its own, the cached event and the
  lifecycle flags; the telemetry store, absent when nil, is passed along. \<open>Poll\<close> is a function of
  the clock, of what the request gave, and of \<open>decode_events\<close>, the JSON decoder of the response.
  \<open>uf\<close> is the case folding of non-ASCII runes.
\<close>

section \<open>Events\<close>

record active_event =
  ev_summary :: string
  ev_start_time :: gtime
  ev_end_time :: gtime
  ev_countdown :: string
  ev_idle :: bool

definition idle_event :: active_event where
  "idle_event = \<lparr>ev_summary = '''', ev_start_time = 0, ev_end_time = 0, ev_countdown = '''', ev_idle = True\<rparr>"

record calendar_event_time =
  et_date_time :: string
  et_date :: string
  et_time_zone :: string

record calendar_attendee =
  at_email :: string
  at_self :: bool
  at_response_status :: string

record calendar_event_item =
  it_id :: string
  it_summary :: string
  it_status :: string
  it_transparency :: string
  it_start :: calendar_event_time
  it_end :: calendar_event_time
  it_attendees :: "calendar_attendee list"

section \<open>State\<close>

definition DefaultCalendarBaseURL :: string where
  "DefaultCalendarBaseURL = ''https://www.googleapis.com/calendar/v3/calendars''"
definition DefaultPollInterval :: duration where "DefaultPollInterval = 1 * minute"

record poller =
  po_enabled :: bool
  po_poll_interval :: duration
  po_store :: "cal_store option"
  po_manager :: "cal_manager option"
  po_base_url :: string
  po_own_client :: bool
  po_active :: active_event
  po_started :: bool
  po_closed :: bool
  po_cancel :: "bool option"

definition new_poller :: "bool \<Rightarrow> duration \<Rightarrow> cal_store option \<Rightarrow> cal_manager option \<Rightarrow> string \<Rightarrow> bool
    \<Rightarrow> tstore option \<Rightarrow> poller \<times> tstore option" where
  "new_poller enabled interval st m base own tel =
     (\<lparr>po_enabled = enabled, po_poll_interval = (if interval \<le> 0 then DefaultPollInterval else interval),
       po_store = st, po_manager = m, po_base_url = base, po_own_client = own, po_active = idle_event,
       po_started = False, po_closed = False, po_cancel = None\<rparr>,
      map_option (set_calendar_sync_enabled enabled) tel)"

section \<open>Countdown\<close>

definition FormatCountdown :: "duration \<Rightarrow> string" where
  "FormatCountdown remaining =
     (if remaining \<le> 0 then ''00:00''
      else let total_minutes = wrap64 (wrap64 (remaining + minute) - nanosecond) sdiv minute;
               hours = total_minutes sdiv 60;
               minutes = total_minutes smod 60
           in pad2 hours @ '':'' @ pad2 minutes)"

definition GetCurrentEvent :: "gtime \<Rightarrow> poller \<Rightarrow> active_event" where
  "GetCurrentEvent now p =
     (let ev = po_active p in
      if ev_idle ev \<or> ev_end_time ev = 0 then idle_event
      else if \<not> now < ev_end_time ev then idle_event
      else if now < ev_start_time ev then idle_event
      else ev\<lparr>ev_countdown := FormatCountdown (time_sub (ev_end_time ev) now), ev_idle := False\<rparr>)"

section \<open>Lifecycle\<close>

definition poller_start :: "poller \<Rightarrow> string option \<times> poller" where
  "poller_start p =
     (if po_closed p then (Some ''poller is closed'', p)
      else if po_started p then (Some ''poller already started'', p)
      else (None, p\<lparr>po_started := True, po_cancel := Some False\<rparr>))"

definition poller_close :: "poller \<Rightarrow> poller" where
  "poller_close p = (if po_closed p then p
     else p\<lparr>po_closed := True, po_cancel := map_option (\<lambda>_. True) (po_cancel p)\<rparr>)"

section \<open>Filtering\<close>

fun declined_self :: "(nat \<Rightarrow> nat) \<Rightarrow> string \<Rightarrow> calendar_attendee list \<Rightarrow> bool \<Rightarrow> bool \<times> bool" where
  "declined_self uf email [] found = (False, found)"
| "declined_self uf email (a # as) found =
     (if at_self a \<or> (email \<noteq> '''' \<and> equal_fold uf (at_email a) email)
      then (if equal_fold uf (at_response_status a) ''declined'' then (True, True)
            else declined_self uf email as True)
      else declined_self uf email as found)"

definition isDeclined :: "(nat \<Rightarrow> nat) \<Rightarrow> calendar_attendee list \<Rightarrow> string \<Rightarrow> bool" where
  "isDeclined uf attendees email =
     (if attendees = [] then False
      else (case declined_self uf email attendees False of (declined, found) \<Rightarrow>
        if declined then True
        else if \<not> found then list_ex (\<lambda>a. equal_fold uf (at_response_status a) ''declined'') attendees
        else False))"

definition eligible :: "(nat \<Rightarrow> nat) \<Rightarrow> string \<Rightarrow> gtime \<Rightarrow> calendar_event_item \<Rightarrow> active_event option" where
  "eligible uf email now item =
     (if equal_fold uf (it_status item) ''cancelled'' then None
      else if equal_fold uf (it_transparency item) ''transparent'' then None
      else if et_date_time (it_start item) = '''' \<or> et_date_time (it_end item) = '''' then None
      else (case parse_rfc3339 (et_date_time (it_start item)) of
        None \<Rightarrow> None
      | Some start_time \<Rightarrow> (case parse_rfc3339 (et_date_time (it_end item)) of
          None \<Rightarrow> None
        | Some end_time \<Rightarrow>
            if isDeclined uf (it_attendees item) email then None
            else if (now = start_time \<or> start_time < now) \<and> now < end_time
            then Some \<lparr>ev_summary = it_summary item, ev_start_time = start_time, ev_end_time = end_time,
              ev_countdown = FormatCountdown (time_sub end_time now), ev_idle = False\<rparr>
            else None)))"

text \<open>The order of \<open>sort.Slice\<close>: earliest end, then latest start, then the summary bytewise.\<close>

definition event_key :: "active_event \<Rightarrow> gtime \<times> gtime \<times> string" where
  "event_key e = (ev_end_time e, - ev_start_time e, ev_summary e)"

definition sort_events :: "active_event list \<Rightarrow> active_event list" where
  "sort_events es = sort_key event_key es"

section \<open>Poll\<close>

record poll_token =
  pk_access_token :: string
  pk_refresh_token :: string
  pk_expiry :: gtime

datatype poll_client = OwnClient | OAuthClient oauth_config poll_token | DefaultClient

record poll_env =
  pe_now :: gtime
  pe_new_request :: "string option"
  pe_response :: "string + (int \<times> string)"
  pe_recorded :: gtime

definition poll_http_client :: "poller \<Rightarrow> calendar_binding \<Rightarrow> poll_client" where
  "poll_http_client p b =
     (if po_own_client p then OwnClient
      else (case po_manager p of
        Some m \<Rightarrow> OAuthClient (cm_oauth m) \<lparr>pk_access_token = cb_access_token b,
          pk_refresh_token = cb_refresh_token b,
          pk_expiry = (if cb_token_expiry_unix b > 0 then time_unix (cb_token_expiry_unix b) else 0)\<rparr>
      | None \<Rightarrow> DefaultClient))"

definition poll_url :: "poller \<Rightarrow> calendar_binding \<Rightarrow> gtime \<Rightarrow> string" where
  "poll_url p b now =
     (let calendar_id = (if blank (cb_calendar_id b) then ''primary'' else cb_calendar_id b);
          base_url = (if po_base_url p = '''' then DefaultCalendarBaseURL else po_base_url p);
          time_min = format_rfc3339_utc (time_add now (-12 * hour));
          time_max = format_rfc3339_utc (time_add now (24 * hour))
      in trim_right (CHR ''/'') base_url @ ''/'' @ path_escape calendar_id @ ''/events?timeMin=''
         @ query_escape time_min @ ''&timeMax='' @ query_escape time_max @ ''&singleEvents=true'')"

definition handle_poll_failure :: "gtime \<Rightarrow> gtime \<Rightarrow> string \<Rightarrow> poller \<times> tstore option \<Rightarrow> poller \<times> tstore option" where
  "handle_poll_failure now recorded err s = (case s of (p, tel) \<Rightarrow>
     (let ev = po_active p;
          (p', active_summary) =
            (if \<not> ev_idle ev \<and> ev_end_time ev \<noteq> 0
             then (if \<not> now < ev_end_time ev then (p\<lparr>po_active := idle_event\<rparr>, '''')
                   else (p\<lparr>po_active := ev\<lparr>ev_countdown := FormatCountdown (time_sub (ev_end_time ev) now)\<rparr>\<rparr>,
                         ev_summary ev))
             else (p, ''''))
      in (p', map_option (record_calendar_poll recorded False active_summary (Some err)) tel)))"

definition poll_success :: "gtime \<Rightarrow> active_event list \<Rightarrow> poller \<times> tstore option \<Rightarrow> poller \<times> tstore option" where
  "poll_success recorded actives s = (case s of (p, tel) \<Rightarrow>
     (if actives = []
      then (p\<lparr>po_active := idle_event\<rparr>, map_option (record_calendar_poll recorded True '''' None) tel)
      else let winner = hd (sort_events actives)
           in (p\<lparr>po_active := winner\<rparr>, map_option (record_calendar_poll recorded True (ev_summary winner) None) tel)))"

text \<open>The request sent, if any, the error returned, and the new state.\<close>

definition Poll :: "(nat \<Rightarrow> nat) \<Rightarrow> (string \<Rightarrow> string + calendar_event_item list) \<Rightarrow> poll_env
    \<Rightarrow> poller \<times> tstore option \<Rightarrow> (string \<times> poll_client) option \<times> string option \<times> poller \<times> tstore option" where
  "Poll uf decode_events env s = (case s of (p, tel) \<Rightarrow>
     (let now = pe_now env;
          fail = (\<lambda>req text err. (req, Some err, handle_poll_failure now (pe_recorded env) (text @ err) s))
      in (case (if po_enabled p then Option.bind (po_store p) cst_binding else None) of
            None \<Rightarrow> (None, None, p\<lparr>po_active := idle_event\<rparr>, tel)
          | Some b \<Rightarrow>
             (let req = (poll_url p b now, poll_http_client p b) in
              case pe_new_request env of
                Some err \<Rightarrow> fail None ''failed to create calendar request: '' err
              | None \<Rightarrow> (case pe_response env of
                  Inl err \<Rightarrow> fail (Some req) ''failed to execute calendar request: '' err
                | Inr (status, body) \<Rightarrow>
                    if status \<noteq> 200
                    then fail (Some req) '''' (''calendar API returned status '' @ itoa status @ '': '' @ body)
                    else (case decode_events body of
                      Inl err \<Rightarrow> fail (Some req) ''failed to decode calendar response: '' err
                    | Inr items \<Rightarrow>
                        (Some req, None,
                         poll_success (pe_recorded env) (List.map_filter (eligible uf (cb_email b) now) items) s)))))))"

section \<open>The countdown\<close>

lemma sdiv_nonneg: "0 \<le> a \<Longrightarrow> 0 < b \<Longrightarrow> (a::int) sdiv b = a div b"
  by (cases "a = 0") (simp_all add: signed_divide_int_def)

lemma smod_nonneg: "0 \<le> a \<Longrightarrow> 0 < b \<Longrightarrow> (a::int) smod b = a mod b"
  by (cases "a = 0") (simp_all add: signed_modulo_int_def sdiv_nonneg minus_div_mult_eq_mod)

text \<open>
  C39: the countdown rounds up to whole minutes. As long as adding a minute does not overflow, the
  text is the hours, not limited to a day, and the minutes of the least number of minutes that is
  not shorter than the time left.
\<close>

theorem countdown_rounds_up:
  assumes "0 < r" "r + minute \<le> max_int64"
  shows "\<exists>n. FormatCountdown r = pad2 (n div 60) @ '':'' @ pad2 (n mod 60)
    \<and> (n - 1) * minute < r \<and> r \<le> n * minute"
proof -
  define n where "n = (r + minute - nanosecond) div minute"
  have w: "wrap64 (wrap64 (r + minute) - nanosecond) = r + minute - nanosecond"
    using assms by (simp add: go_arith)
  have "0 \<le> n" "0 \<le> r + minute - nanosecond" "(0::int) < minute" using assms by (simp_all add: n_def go_arith)
  then have f: "FormatCountdown r = pad2 (n div 60) @ '':'' @ pad2 (n mod 60)"
    using assms(1) by (simp add: FormatCountdown_def Let_def w sdiv_nonneg smod_nonneg flip: n_def)
  have "n * minute \<le> r + minute - nanosecond" "r + minute - nanosecond < (n + 1) * minute"
    using div_mult_mod_eq [of "r + minute - nanosecond" minute]
      pos_mod_bound [of minute "r + minute - nanosecond"] pos_mod_sign [of minute "r + minute - nanosecond"]
    by (simp_all add: n_def go_arith algebra_simps)
  then have "(n - 1) * minute < r" "r \<le> n * minute" by (simp_all add: algebra_simps go_arith)
  with f show ?thesis by blast
qed

lemma countdown_rounds_up_witness:
  "FormatCountdown (61 * second) = ''00:02''"
proof -
  have "0 < 61 * second" "61 * second + minute \<le> max_int64" by (simp_all add: go_arith)
  from countdown_rounds_up [OF this] obtain n
    where n: "FormatCountdown (61 * second) = pad2 (n div 60) @ '':'' @ pad2 (n mod 60)"
      "(n - 1) * minute < 61 * second" "61 * second \<le> n * minute" by blast
  from n(2,3) have "n = 2" by (simp add: go_arith)
  moreover have "pad2 0 @ '':'' @ pad2 2 = ''00:02''" by code_simp
  ultimately show ?thesis using n(1) by simp
qed

text \<open>
  A time left near the end of the range overflows, and the countdown is negative; \<open>Sub\<close>
  saturates there, so every event that ends more than 292 years ahead shows this text.
\<close>

theorem countdown_overflows:
  "FormatCountdown (time_sub 9300000000000000000 0) = ''-2562047:-46''"
proof -
  have "wrap64 (wrap64 (max_int64 + minute) - nanosecond) = - 9223371976854775810"
    by (simp add: wrap64_def go_arith)
  moreover have "time_sub 9300000000000000000 0 = max_int64" by (simp add: time_sub_def go_arith)
  moreover have "(- 9223371976854775810) sdiv minute = - 153722866"
    "(- 153722866 :: int) sdiv 60 = - 2562047" "(- 153722866 :: int) smod 60 = - 46"
    by (simp_all add: signed_divide_int_def signed_modulo_int_def go_arith)
  moreover have "\<not> max_int64 \<le> 0" by (simp add: go_arith)
  moreover have "pad2 (- 2562047) @ '':'' @ pad2 (- 46) = ''-2562047:-46''"
    by (simp add: pad2_def itoa_def nat_digits.simps digit_char_values)
  ultimately show ?thesis by (simp add: FormatCountdown_def)
qed

section \<open>The current event\<close>

interpretation polltr: event_tracker GetCurrentEvent ev_idle ev_start_time ev_end_time ev_countdown FormatCountdown
  by unfold_locales (auto simp: GetCurrentEvent_def idle_event_def Let_def split: if_splits)

section \<open>Polls\<close>

lemma sort_events_least:
  assumes "es \<noteq> []"
  shows "hd (sort_events es) \<in> set es \<and> (\<forall>e \<in> set es. event_key (hd (sort_events es)) \<le> event_key e)"
proof -
  have "set (sort_events es) = set es" by (simp add: sort_events_def)
  then obtain w ws where s: "sort_events es = w # ws" using assms by (cases "sort_events es") auto
  have "set (w # ws) = set es" unfolding s [symmetric] by (simp add: sort_events_def)
  moreover have "sorted (map event_key (w # ws))" unfolding s [symmetric] by (simp add: sort_events_def)
  ultimately show ?thesis by (auto simp: s)
qed

lemma event_key_le:
  "event_key a \<le> event_key b \<longleftrightarrow> ev_end_time a < ev_end_time b \<or> (ev_end_time a = ev_end_time b \<and>
     (ev_start_time b < ev_start_time a \<or> (ev_start_time a = ev_start_time b \<and> ev_summary a \<le> ev_summary b)))"
  by (auto simp: event_key_def less_eq_prod_def)

lemma eligible_Some:
  "eligible uf email now item = Some e \<Longrightarrow>
     \<not> ev_idle e \<and> ev_start_time e \<le> now \<and> now < ev_end_time e \<and> ev_summary e = it_summary item
     \<and> parse_rfc3339 (et_date_time (it_start item)) = Some (ev_start_time e)
     \<and> parse_rfc3339 (et_date_time (it_end item)) = Some (ev_end_time e)
     \<and> \<not> isDeclined uf (it_attendees item) email \<and> \<not> equal_fold uf (it_status item) ''cancelled''
     \<and> \<not> equal_fold uf (it_transparency item) ''transparent''"
  by (auto simp: eligible_def split: if_splits option.splits)

lemma set_map_filter: "set (List.map_filter f xs) = {y. \<exists>x \<in> set xs. f x = Some y}"
  by (force simp: map_filter_def)

definition poll_bound :: "poller \<Rightarrow> calendar_binding option" where
  "poll_bound p = (if po_enabled p then Option.bind (po_store p) cst_binding else None)"

lemma Poll_cases:
  assumes "Poll uf decode_events env (p, tel) = (req, err, p', tel')"
  obtains (dormant) "poll_bound p = None" "req = None" "err = None" "p' = p\<lparr>po_active := idle_event\<rparr>" "tel' = tel"
  | (failed) b e msg where "poll_bound p = Some b" "err = Some e"
      "handle_poll_failure (pe_now env) (pe_recorded env) msg (p, tel) = (p', tel')"
  | (polled) b body items where "poll_bound p = Some b" "req = Some (poll_url p b (pe_now env), poll_http_client p b)"
      "err = None" "pe_response env = Inr (200, body)" "decode_events body = Inr items"
      "poll_success (pe_recorded env) (List.map_filter (eligible uf (cb_email b) (pe_now env)) items) (p, tel) = (p', tel')"
proof -
  note poll = assms [unfolded Poll_def poll_bound_def [symmetric] Let_def prod.case]
  show thesis
  proof (cases "poll_bound p")
    case None
    then show thesis using poll dormant by simp
  next
    case b: (Some b)
    show thesis
    proof (cases "pe_new_request env")
      case (Some e)
      then have "err = Some e" "handle_poll_failure (pe_now env) (pe_recorded env)
          (''failed to create calendar request: '' @ e) (p, tel) = (p', tel')"
        using poll b by simp_all
      with b show thesis by (rule failed)
    next
      case None
      then show thesis using poll b failed polled
        by (auto split: sum.splits prod.splits if_splits)
    qed
  qed
qed

definition polls_counted :: "tstore option \<Rightarrow> tstore option \<Rightarrow> bool \<Rightarrow> bool" where
  "polls_counted tel tel' ok \<longleftrightarrow> (case (tel, tel') of
     (Some s, Some s') \<Rightarrow> ct_total_polls (ts_calendar_sync s') = ct_total_polls (ts_calendar_sync s) + 1
       \<and> ct_success_polls (ts_calendar_sync s') = ct_success_polls (ts_calendar_sync s) + (if ok then 1 else 0)
       \<and> ct_failed_polls (ts_calendar_sync s') = ct_failed_polls (ts_calendar_sync s) + (if ok then 0 else 1)
   | (None, None) \<Rightarrow> True
   | _ \<Rightarrow> False)"

lemma record_poll_counted:
  "polls_counted tel (map_option (record_calendar_poll t ok su e) tel) ok"
  by (cases tel) (auto simp: polls_counted_def record_calendar_poll_def Let_def split: option.splits)

text \<open>
  C8: a poll that succeeds shows the right event. When the calendar is enabled and bound and
  \<open>Poll\<close> returns no error, the response was 200 and decoded; if none of its items is eligible the
  cached event is idle, and otherwise it is an eligible item that is going on now, that no eligible
  item ends before, and, among those that end with it, that none started after. One successful poll
  is counted.
\<close>

theorem poll_selects_event:
  assumes "Poll uf decode_events env (p, tel) = (req, None, p', tel')" "poll_bound p = Some b"
  shows "\<exists>body items. pe_response env = Inr (200, body) \<and> decode_events body = Inr items
    \<and> polls_counted tel tel' True
    \<and> (let el = eligible uf (cb_email b) (pe_now env); w = po_active p' in
        if \<forall>it \<in> set items. el it = None then w = idle_event
        else (\<exists>it \<in> set items. el it = Some w) \<and> \<not> ev_idle w
          \<and> ev_start_time w \<le> pe_now env \<and> pe_now env < ev_end_time w
          \<and> (\<forall>it \<in> set items. \<forall>e. el it = Some e \<longrightarrow> ev_end_time w \<le> ev_end_time e
               \<and> (ev_end_time e = ev_end_time w \<longrightarrow> ev_start_time e \<le> ev_start_time w)))"
  using assms(1)
proof (cases rule: Poll_cases)
  case (polled b' body items)
  define el where "el = eligible uf (cb_email b) (pe_now env)"
  define as where "as = List.map_filter el items"
  have b: "b' = b" using polled(1) assms(2) by simp
  have s: "poll_success (pe_recorded env) as (p, tel) = (p', tel')" using polled(6) by (simp add: as_def el_def b)
  have c: "polls_counted tel tel' True"
    using s record_poll_counted by (auto simp: poll_success_def Let_def split: if_splits)
  have set_as: "set as = {y. \<exists>x \<in> set items. el x = Some y}" unfolding as_def by (rule set_map_filter)
  have "if \<forall>it \<in> set items. el it = None then po_active p' = idle_event
    else po_active p' \<in> set as \<and> (\<forall>e \<in> set as. event_key (po_active p') \<le> event_key e)"
  proof (cases "as = []")
    case True
    have "el it = None" if "it \<in> set items" for it using set_as True that by (cases "el it") auto
    then show ?thesis using s True by (auto simp: poll_success_def)
  next
    case False
    then obtain y where "y \<in> set as" by (cases as) auto
    then obtain it where "it \<in> set items" "el it = Some y" unfolding set_as by blast
    then have "\<not> (\<forall>it \<in> set items. el it = None)" by auto
    moreover have "po_active p' = hd (sort_events as)" using s False by (auto simp: poll_success_def Let_def)
    ultimately show ?thesis using sort_events_least [OF False] by (simp only: if_False) blast
  qed
  note pick = this
  let ?w = "po_active p'"
  have "if \<forall>it \<in> set items. el it = None then ?w = idle_event
    else (\<exists>it \<in> set items. el it = Some ?w) \<and> \<not> ev_idle ?w
      \<and> ev_start_time ?w \<le> pe_now env \<and> pe_now env < ev_end_time ?w
      \<and> (\<forall>it \<in> set items. \<forall>e. el it = Some e \<longrightarrow> ev_end_time ?w \<le> ev_end_time e
           \<and> (ev_end_time e = ev_end_time ?w \<longrightarrow> ev_start_time e \<le> ev_start_time ?w))"
  proof (cases "\<forall>it \<in> set items. el it = None")
    case False
    have "?w \<in> set as \<and> (\<forall>e \<in> set as. event_key ?w \<le> event_key e)"
      using pick unfolding if_not_P [OF False] .
    then have w: "?w \<in> set as" "\<forall>e \<in> set as. event_key ?w \<le> event_key e" by (rule conjunct1, elim conjE)
    then obtain it where it: "it \<in> set items" "el it = Some ?w" using set_as by blast
    have le: "ev_end_time ?w \<le> ev_end_time e \<and> (ev_end_time e = ev_end_time ?w \<longrightarrow> ev_start_time e \<le> ev_start_time ?w)"
      if "x \<in> set items" "el x = Some e" for x e
    proof -
      have "e \<in> set as" using that set_as by blast
      then have "event_key ?w \<le> event_key e" using w(2) by blast
      then show ?thesis unfolding event_key_le by linarith
    qed
    from eligible_Some [OF it(2) [unfolded el_def]] it le False show ?thesis by auto
  qed (use pick in simp)
  then show ?thesis unfolding Let_def el_def [symmetric] using polled(4,5) c
    by (intro exI [of _ body] exI [of _ items] conjI)
qed (use assms(2) in auto)

text \<open>
  C30: a failing poll keeps an event that is still going on. When \<open>Poll\<close> returns an error, the
  cached event is kept, but for its countdown, as long as it has not ended, and becomes idle once
  it has; the failure is counted once, and no other poll is.
\<close>

theorem poll_failure_keeps_event:
  assumes "Poll uf decode_events env (p, tel) = (req, Some err, p', tel')"
  shows "polls_counted tel tel' False
    \<and> (if ev_idle (po_active p) \<or> ev_end_time (po_active p) = 0 then po_active p' = po_active p
       else if pe_now env < ev_end_time (po_active p)
       then po_active p' = (po_active p)\<lparr>ev_countdown := FormatCountdown (time_sub (ev_end_time (po_active p)) (pe_now env))\<rparr>
       else po_active p' = idle_event)"
  using assms
proof (cases rule: Poll_cases)
  case (failed b e msg)
  then show ?thesis using record_poll_counted [of tel]
    by (auto simp: handle_poll_failure_def Let_def split: if_splits)
qed auto

section \<open>Runs of polls\<close>

text \<open>
  One round of \<open>loop\<close>: what the store holds then, which the bind handler may have changed since, and
  the poll. The result is the error of \<open>Poll\<close>, which \<open>loop\<close> ignores, and the new state.
\<close>

definition poll_round :: "(nat \<Rightarrow> nat) \<Rightarrow> (string \<Rightarrow> string + calendar_event_item list)
    \<Rightarrow> calendar_binding option \<times> poll_env \<Rightarrow> poller \<times> tstore option \<Rightarrow> string option \<times> poller \<times> tstore option" where
  "poll_round uf decode_events rd s = (case (rd, s) of ((b, env), (p, tel)) \<Rightarrow>
     (case Poll uf decode_events env
         (p\<lparr>po_store := map_option (\<lambda>st. st\<lparr>cst_binding := b\<rparr>) (po_store p)\<rparr>, tel) of
       (_, err, s') \<Rightarrow> (err, s')))"

fun poll_rounds :: "(nat \<Rightarrow> nat) \<Rightarrow> (string \<Rightarrow> string + calendar_event_item list)
    \<Rightarrow> (calendar_binding option \<times> poll_env) list \<Rightarrow> poller \<times> tstore option
    \<Rightarrow> string option list \<times> poller \<times> tstore option" where
  "poll_rounds uf decode_events [] s = ([], s)"
| "poll_rounds uf decode_events (r # rs) s = (case poll_round uf decode_events r s of
     (err, s1) \<Rightarrow> (case poll_rounds uf decode_events rs s1 of (errs, s2) \<Rightarrow> (err # errs, s2)))"

text \<open>An event \<open>w\<close> is still held at \<open>t\<close>, unless it is over by then.\<close>

definition stands :: "active_event \<Rightarrow> gtime \<Rightarrow> active_event \<Rightarrow> bool" where
  "stands w t a \<longleftrightarrow> (if ev_idle w then ev_idle a
     else (\<exists>cd. a = w\<lparr>ev_countdown := cd\<rparr>) \<or> (ev_end_time w \<le> t \<and> ev_idle a))"

lemma stands_refl: "stands w t w"
  by (cases w) (auto simp: stands_def)

lemma failed_round_stands:
  assumes "poll_round uf decode_events (b, env) (p, tel) = (err, (p', tel'))" "err \<noteq> None"
    and "stands w t (po_active p)" "t \<le> pe_now env" "ev_idle w \<or> ev_end_time w \<noteq> 0"
  shows "stands w (pe_now env) (po_active p')"
proof -
  obtain req e q where q: "Poll uf decode_events env (q, tel) = (req, Some e, p', tel')" "po_active q = po_active p"
    using assms(1,2) by (auto simp: poll_round_def split: prod.splits)
  from q(1) obtain msg where "handle_poll_failure (pe_now env) (pe_recorded env) msg (q, tel) = (p', tel')"
    by (cases rule: Poll_cases) auto
  then show ?thesis using assms(3-5) q(2)
    by (auto simp: handle_poll_failure_def stands_def idle_event_def Let_def split: if_splits)
qed

lemma failed_rounds_stand:
  assumes "poll_rounds uf decode_events rs s = (errs, s')" "None \<notin> set errs"
    and "stands w t (po_active (fst s))" "sorted (t # map (pe_now \<circ> snd) rs @ [now])" "ev_idle w \<or> ev_end_time w \<noteq> 0"
  shows "stands w now (po_active (fst s'))"
  using assms
proof (induction rs arbitrary: s errs t)
  case Nil
  then show ?case by (auto simp: stands_def)
next
  case (Cons r rs)
  obtain b env where r: "r = (b, env)" by (cases r)
  obtain p tel where s: "s = (p, tel)" by (cases s)
  obtain err s1 where 1: "poll_round uf decode_events r s = (err, s1)" by (cases "poll_round uf decode_events r s")
  obtain errs' where 2: "poll_rounds uf decode_events rs s1 = (errs', s')" "errs = err # errs'"
    using Cons.prems(1) 1 by (auto split: prod.splits)
  have "stands w (pe_now env) (po_active (fst s1))"
    using failed_round_stands [of uf decode_events b env p tel err "fst s1" "snd s1" w t] 1 2(2) Cons.prems(2-5) r s
    by (cases err) auto
  then show ?case using Cons.IH [OF 2(1)] 2(2) Cons.prems r by simp
qed

text \<open>The cached event after a poll that returned no error.\<close>

lemma answered_round:
  assumes "poll_round uf decode_events (b, env) s = (None, (p', tel'))" "\<not> ev_idle (po_active p')"
  shows "\<exists>bd body items it. b = Some bd \<and> pe_response env = Inr (200, body) \<and> decode_events body = Inr items
    \<and> it \<in> set items \<and> eligible uf (cb_email bd) (pe_now env) it = Some (po_active p')"
proof -
  obtain p tel where s: "s = (p, tel)" by (cases s)
  let ?q = "p\<lparr>po_store := map_option (\<lambda>st. st\<lparr>cst_binding := b\<rparr>) (po_store p)\<rparr>"
  obtain req where "Poll uf decode_events env (?q, tel) = (req, None, p', tel')"
    using assms(1) by (auto simp: poll_round_def s split: prod.splits)
  then show ?thesis
  proof (cases rule: Poll_cases)
    case dormant
    then show ?thesis using assms(2) by (simp add: idle_event_def)
  next
    case (polled bd body items)
    define as where "as = List.map_filter (eligible uf (cb_email bd) (pe_now env)) items"
    have "as \<noteq> []" "po_active p' = hd (sort_events as)"
      using polled(6) assms(2) by (auto simp: as_def [symmetric] poll_success_def idle_event_def Let_def split: if_splits)
    then have "po_active p' \<in> set as" using sort_events_least [of as] by simp
    moreover have "b = Some bd" using polled(1) by (cases "po_store p") (auto simp: poll_bound_def split: if_splits)
    ultimately show ?thesis using polled(4,5) by (auto simp: as_def set_map_filter)
  qed simp
qed

text \<open>
  C31: between polls \<open>GetCurrentEvent\<close> goes by the last answer of the calendar, for as long as it is
  true. Take a poll that returned no error and any later ones that failed: the event reported is the
  one that poll chose, with a countdown for the present time, until it ends, and idle from its end on;
  and an event is only ever reported while it is going on, and comes from an item of a 200 response
  for the account bound then, which had begun by the time of that poll.
\<close>

theorem event_stands_until_next_answer:
  assumes "poll_round uf decode_events (b, env) s = (None, (p1, tel1))"
    and "poll_rounds uf decode_events later (p1, tel1) = (errs, (p2, tel2))" "None \<notin> set errs"
    and "sorted (pe_now env # map (pe_now \<circ> snd) later @ [now])" "0 \<le> pe_now env"
  shows "let w = po_active p1; e = GetCurrentEvent now p2 in
    e = (if ev_idle w \<or> ev_end_time w \<le> now then idle_event
         else w\<lparr>ev_countdown := FormatCountdown (time_sub (ev_end_time w) now)\<rparr>)
    \<and> (\<not> ev_idle e \<longrightarrow> ev_start_time e \<le> now \<and> now < ev_end_time e \<and> 0 < time_sub (ev_end_time e) now
        \<and> (\<exists>bd body items it. b = Some bd \<and> pe_response env = Inr (200, body) \<and> decode_events body = Inr items
             \<and> it \<in> set items \<and> eligible uf (cb_email bd) (pe_now env) it = Some w))"
proof -
  let ?w = "po_active p1"
  have w: "ev_start_time ?w \<le> pe_now env \<and> pe_now env < ev_end_time ?w
      \<and> (\<exists>bd body items it. b = Some bd \<and> pe_response env = Inr (200, body) \<and> decode_events body = Inr items
           \<and> it \<in> set items \<and> eligible uf (cb_email bd) (pe_now env) it = Some ?w)" if "\<not> ev_idle ?w"
    using answered_round [OF assms(1) that] eligible_Some by blast
  have st: "stands ?w now (po_active p2)"
    using failed_rounds_stand [OF assms(2,3) _ assms(4), of ?w] stands_refl [of ?w] assms(5) w
    by (cases "ev_idle ?w") auto
  have e: "GetCurrentEvent now p2 = (if ev_idle ?w \<or> ev_end_time ?w \<le> now then idle_event
      else ?w\<lparr>ev_countdown := FormatCountdown (time_sub (ev_end_time ?w) now)\<rparr>)"
  proof (cases "ev_idle ?w")
    case True
    then show ?thesis using st by (simp add: stands_def GetCurrentEvent_def Let_def)
  next
    case False
    have "pe_now env \<le> now" using assms(4) by simp
    then show ?thesis using st w [OF False] False assms(5)
      by (cases ?w) (auto simp: stands_def GetCurrentEvent_def Let_def)
  qed
  have "\<not> ev_idle ?w" if "\<not> ev_idle (GetCurrentEvent now p2)" using that e by (auto simp: idle_event_def)
  then show ?thesis unfolding Let_def using e w polltr.busy_is_current [of now p2] polltr.busy_time_left [of now p2]
    by blast
qed

section \<open>Concrete polls\<close>

definition demo_item :: "string \<Rightarrow> string \<Rightarrow> calendar_event_item" where
  "demo_item su end_text = \<lparr>it_id = ''1'', it_summary = su, it_status = ''confirmed'', it_transparency = '''',
     it_start = \<lparr>et_date_time = ''0001-01-01T00:00:00Z'', et_date = '''', et_time_zone = ''''\<rparr>,
     it_end = \<lparr>et_date_time = end_text, et_date = '''', et_time_zone = ''''\<rparr>, it_attendees = []\<rparr>"

definition demo_bound_store :: cal_store where
  "demo_bound_store = demo_store\<lparr>cst_binding := Some demo_binding\<rparr>"

definition demo_poller :: poller where
  "demo_poller = fst (new_poller True minute (Some demo_bound_store) None '''' True None)"

definition demo_poll_env :: "string + (int \<times> string) \<Rightarrow> poll_env" where
  "demo_poll_env resp = \<lparr>pe_now = 30 * second, pe_new_request = None, pe_response = resp, pe_recorded = 31 * second\<rparr>"

definition demo_items :: "calendar_event_item list" where
  "demo_items = [demo_item ''Long'' ''0001-01-01T01:00:00Z'', demo_item ''Short'' ''0001-01-01T00:30:00Z'']"

lemma demo_poll_bound: "poll_bound demo_poller = Some demo_binding"
  by (simp add: poll_bound_def demo_poller_def new_poller_def demo_bound_store_def)

lemma demo_parse:
  "parse_rfc3339 ''0001-01-01T00:00:00Z'' = Some 0"
  "parse_rfc3339 ''0001-01-01T00:30:00Z'' = Some (1800 * second)"
  "parse_rfc3339 ''0001-01-01T01:00:00Z'' = Some (3600 * second)"
  unfolding second_def by code_simp+

lemma demo_fold: "equal_fold uf ''confirmed'' ''cancelled'' = False" "equal_fold uf '''' ''transparent'' = False"
  by (simp_all add: equal_fold_def runes_all_ascii fold_rune_def)

lemma demo_eligible:
  "eligible uf email (30 * second) (demo_item su ''0001-01-01T00:30:00Z'')
     = Some \<lparr>ev_summary = su, ev_start_time = 0, ev_end_time = 1800 * second,
         ev_countdown = FormatCountdown (time_sub (1800 * second) (30 * second)), ev_idle = False\<rparr>"
  by (simp add: eligible_def demo_item_def demo_fold demo_parse isDeclined_def) (simp add: second_def)

lemma poll_selects_event_witness:
  "\<exists>req p' tel'. Poll (\<lambda>r. r) (\<lambda>_. Inr demo_items) (demo_poll_env (Inr (200, ''{}''))) (demo_poller, None) = (req, None, p', tel')
     \<and> \<not> ev_idle (po_active p') \<and> ev_end_time (po_active p') \<le> 1800 * second"
proof -
  let ?e = "demo_poll_env (Inr (200, ''{}''))"
  let ?el = "eligible (\<lambda>r. r) (cb_email demo_binding) (30 * second)"
  obtain p' tel' where "poll_success (31 * second) (List.map_filter ?el demo_items) (demo_poller, None) = (p', tel')"
    by fastforce
  then obtain req where p: "Poll (\<lambda>r. r) (\<lambda>_. Inr demo_items) ?e (demo_poller, None) = (req, None, p', tel')"
    using demo_poll_bound by (simp add: Poll_def demo_poll_env_def Let_def flip: poll_bound_def)
  let ?it = "demo_item ''Short'' ''0001-01-01T00:30:00Z''"
  have it: "?it \<in> set demo_items" by (simp add: demo_items_def)
  from poll_selects_event [OF p demo_poll_bound] it demo_eligible [of "\<lambda>r. r" "cb_email demo_binding" "''Short''"]
  have "\<not> ev_idle (po_active p') \<and> ev_end_time (po_active p') \<le> 1800 * second"
    by (fastforce simp: demo_poll_env_def Let_def split: if_splits)
  with p show ?thesis by blast
qed

lemma poll_failure_keeps_event_witness:
  "\<exists>req p' tel'. Poll (\<lambda>r. r) (\<lambda>_. Inr []) (demo_poll_env (Inl ''timeout''))
       (demo_poller\<lparr>po_active := idle_event\<lparr>ev_idle := False, ev_end_time := 60 * second\<rparr>\<rparr>, None) = (req, Some ''timeout'', p', tel')
     \<and> ev_countdown (po_active p') = FormatCountdown (30 * second)"
proof -
  let ?p = "demo_poller\<lparr>po_active := idle_event\<lparr>ev_idle := False, ev_end_time := 60 * second\<rparr>\<rparr>"
  let ?e = "demo_poll_env (Inl ''timeout'')"
  have b: "poll_bound ?p = Some demo_binding" using demo_poll_bound by (simp add: poll_bound_def split: if_splits)
  obtain req p' tel' where p: "Poll (\<lambda>r. r) (\<lambda>_. Inr []) ?e (?p, None) = (req, Some ''timeout'', p', tel')"
    using b by (cases "handle_poll_failure (30 * second) (31 * second) (''failed to execute calendar request: '' @ ''timeout'') (?p, None)")
      (simp add: Poll_def demo_poll_env_def Let_def flip: poll_bound_def)
  have "time_sub (60 * second) (30 * second) = 30 * second" by (simp add: time_sub_def go_arith)
  with poll_failure_keeps_event [OF p] have "ev_countdown (po_active p') = FormatCountdown (30 * second)"
    by (simp add: demo_poll_env_def second_def)
  with p show ?thesis by blast
qed

lemma event_stands_until_next_answer_witness:
  "\<exists>s1 errs s2. poll_round (\<lambda>r. r) (\<lambda>_. Inr [demo_item ''Short'' ''0001-01-01T00:30:00Z''])
       (Some demo_binding, demo_poll_env (Inr (200, ''{}''))) (demo_poller, None) = (None, s1)
     \<and> poll_rounds (\<lambda>r. r) (\<lambda>_. Inr [demo_item ''Short'' ''0001-01-01T00:30:00Z''])
       [(Some demo_binding, demo_poll_env (Inl ''timeout''))] s1 = (errs, s2)
     \<and> ev_summary (GetCurrentEvent (60 * second) (fst s2)) = ''Short''
     \<and> ev_idle (GetCurrentEvent (1800 * second) (fst s2))"
proof -
  let ?it = "demo_item ''Short'' ''0001-01-01T00:30:00Z''"
  let ?d = "\<lambda>_ :: string. Inr [?it] :: string + calendar_event_item list"
  let ?g = "demo_poll_env (Inr (200, ''{}''))" and ?f = "demo_poll_env (Inl ''timeout'')"
  let ?w = "\<lparr>ev_summary = ''Short'', ev_start_time = 0, ev_end_time = 1800 * second,
      ev_countdown = FormatCountdown (time_sub (1800 * second) (30 * second)), ev_idle = False\<rparr>"
  have st: "po_store demo_poller = Some demo_bound_store" "po_enabled demo_poller"
    by (simp_all add: demo_poller_def new_poller_def)
  have 1: "poll_round (\<lambda>r. r) ?d (Some demo_binding, ?g) (demo_poller, None) = (None, demo_poller\<lparr>po_active := ?w\<rparr>, None)"
    using demo_eligible [of "\<lambda>r. r" "cb_email demo_binding" "''Short''"] st
    by (simp add: poll_round_def Poll_def demo_poll_env_def poll_success_def map_filter_simps sort_events_def
        demo_bound_store_def demo_poller_def new_poller_def Let_def)
  obtain e s2 where r: "poll_round (\<lambda>r. r) ?d (Some demo_binding, ?f) (demo_poller\<lparr>po_active := ?w\<rparr>, None) = (Some e, s2)"
    using st by (auto simp: poll_round_def Poll_def demo_poll_env_def handle_poll_failure_def Let_def)
  then have 2: "poll_rounds (\<lambda>r. r) ?d [(Some demo_binding, ?f)] (demo_poller\<lparr>po_active := ?w\<rparr>, None) = ([Some e], fst s2, snd s2)"
    by simp
  have "GetCurrentEvent (60 * second) (fst s2) = ?w\<lparr>ev_countdown := FormatCountdown (time_sub (1800 * second) (60 * second))\<rparr>"
    using event_stands_until_next_answer [OF 1 2, of "60 * second"] by (simp add: demo_poll_env_def second_def Let_def)
  moreover have "GetCurrentEvent (1800 * second) (fst s2) = idle_event"
    using event_stands_until_next_answer [OF 1 2, of "1800 * second"] by (simp add: demo_poll_env_def second_def Let_def)
  ultimately have "ev_summary (GetCurrentEvent (60 * second) (fst s2)) = ''Short''"
      "ev_idle (GetCurrentEvent (1800 * second) (fst s2))" by (simp_all add: idle_event_def)
  then show ?thesis using 1 2
    by (intro exI [of _ "(demo_poller\<lparr>po_active := ?w\<rparr>, None)"] exI [of _ "[Some e]"] exI [of _ s2]) simp
qed

end
