(* ===== verification/Display.thy ===== *)
theory Display
  imports Poller PushClient
begin

text \<open>
  \<open>internal/calendar/display.go\<close>: the orchestrator that turns the current event into two lines of
  text, renders them into a frame, and pushes it when it changed or is due. The frame buffer is a
  list of bytes; a rune is its number. The offset of the local time zone is an argument.

  The lemmas give every pixel of a rendered frame: \<open>paints f S c\<close> says that \<open>f\<close> colours exactly
  the pixels of \<open>S\<close>, and the drawing routines are compositions of such functions.
\<close>

section \<open>Configuration and state\<close>

definition DisplayWidth :: int where "DisplayWidth = 72"
definition DisplayHeight :: int where "DisplayHeight = 16"
definition DisplayBytesPerPixel :: int where "DisplayBytesPerPixel = 3"
definition DisplayBufferSize :: int where
  "DisplayBufferSize = DisplayWidth * DisplayHeight * DisplayBytesPerPixel"
definition MaxDisplayChars :: int where "MaxDisplayChars = 14"
definition FallbackEventTitle :: string where "FallbackEventTitle = ''Busy''"
definition DefaultEvalInterval :: duration where "DefaultEvalInterval = 1 * second"
definition DefaultKeepAliveInterval :: duration where "DefaultKeepAliveInterval = 30 * second"

lemmas display_consts = DisplayWidth_def DisplayHeight_def DisplayBytesPerPixel_def
  DisplayBufferSize_def MaxDisplayChars_def

datatype display_mode = DisplayModeIdle | DisplayModeBusy

record display_state =
  ds_mode :: display_mode
  ds_top_line :: string
  ds_bottom_line :: string
  ds_updated_at :: gtime

record orchestrator =
  oo_enabled :: bool
  oo_has_tracker :: bool
  oo_has_push :: bool
  oo_eval_interval :: duration
  oo_keep_alive :: duration
  oo_last_state :: display_state
  oo_last_push_at :: gtime
  oo_has_pushed :: bool
  oo_started :: bool
  oo_closed :: bool
  oo_cancel :: "bool option"

definition new_orchestrator :: "bool \<Rightarrow> bool \<Rightarrow> bool \<Rightarrow> duration \<Rightarrow> duration \<Rightarrow> orchestrator" where
  "new_orchestrator enabled tracker push eval keep =
     \<lparr>oo_enabled = enabled, oo_has_tracker = tracker, oo_has_push = push,
      oo_eval_interval = (if eval \<le> 0 then DefaultEvalInterval else eval),
      oo_keep_alive = (if keep \<le> 0 then DefaultKeepAliveInterval else keep),
      oo_last_state = \<lparr>ds_mode = DisplayModeIdle, ds_top_line = '''', ds_bottom_line = '''', ds_updated_at = 0\<rparr>,
      oo_last_push_at = 0, oo_has_pushed = False, oo_started = False, oo_closed = False, oo_cancel = None\<rparr>"

definition orchestrator_start :: "orchestrator \<Rightarrow> string option \<times> orchestrator" where
  "orchestrator_start o1 =
     (if oo_closed o1 then (Some ''display orchestrator is closed'', o1)
      else if oo_started o1 then (Some ''display orchestrator already started'', o1)
      else (None, o1\<lparr>oo_started := True, oo_cancel := Some False\<rparr>))"

definition orchestrator_close :: "orchestrator \<Rightarrow> orchestrator" where
  "orchestrator_close o1 = (if oo_closed o1 then o1
     else o1\<lparr>oo_closed := True, oo_cancel := map_option (\<lambda>_. True) (oo_cancel o1)\<rparr>)"

section \<open>Text\<close>

definition TruncateTitle :: "string \<Rightarrow> int \<Rightarrow> string" where
  "TruncateTitle summary max_chars =
     (if max_chars \<le> 0 then ''''
      else let t = trim_space summary;
               trimmed = (if t = '''' then FallbackEventTitle else t);
               rs = runes trimmed
           in if int (length rs) > max_chars then string_of_runes (take (nat max_chars) rs) else trimmed)"

definition FormatDisplayState :: "int \<Rightarrow> active_event \<Rightarrow> gtime \<Rightarrow> display_state" where
  "FormatDisplayState offset ev now =
     (if ev_idle ev
      then \<lparr>ds_mode = DisplayModeIdle, ds_top_line = format_day offset now,
            ds_bottom_line = format_clock offset now, ds_updated_at = now\<rparr>
      else let c1 = trim_space (ev_countdown ev);
               c2 = (if c1 = '''' then FormatCountdown (time_sub (ev_end_time ev) now) else c1);
               rs = runes c2;
               countdown = (if int (length rs) > MaxDisplayChars
                 then string_of_runes (take (nat MaxDisplayChars) rs) else c2)
           in \<lparr>ds_mode = DisplayModeBusy, ds_top_line = TruncateTitle (ev_summary ev) MaxDisplayChars,
               ds_bottom_line = countdown, ds_updated_at = now\<rparr>)"

section \<open>Font and pixels\<close>

record rgb =
  rgb_r :: byte8
  rgb_g :: byte8
  rgb_b :: byte8

definition colorBusyTitle :: rgb where "colorBusyTitle = \<lparr>rgb_r = 255, rgb_g = 180, rgb_b = 0\<rparr>"
definition colorBusyCountdown :: rgb where "colorBusyCountdown = \<lparr>rgb_r = 255, rgb_g = 60, rgb_b = 60\<rparr>"
definition colorIdleDate :: rgb where "colorIdleDate = \<lparr>rgb_r = 255, rgb_g = 255, rgb_b = 255\<rparr>"
definition colorIdleTime :: rgb where "colorIdleTime = \<lparr>rgb_r = 100, rgb_g = 220, rgb_b = 255\<rparr>"

definition font4x6 :: "(nat \<times> nat list) list" where
  "font4x6 = [
     (32, [0, 0, 0, 0, 0, 0]), (33, [4, 4, 4, 0, 4, 0]), (34, [10, 10, 0, 0, 0, 0]),
     (35, [10, 15, 10, 15, 10, 0]), (36, [7, 12, 6, 3, 14, 0]), (37, [9, 2, 4, 9, 0, 0]),
     (38, [4, 10, 4, 10, 5, 0]), (39, [4, 4, 0, 0, 0, 0]), (40, [2, 4, 4, 4, 2, 0]),
     (41, [4, 2, 2, 2, 4, 0]), (42, [0, 10, 4, 10, 0, 0]), (43, [0, 4, 14, 4, 0, 0]),
     (44, [0, 0, 0, 4, 8, 0]), (45, [0, 0, 14, 0, 0, 0]), (46, [0, 0, 0, 0, 4, 0]),
     (47, [1, 2, 4, 8, 0, 0]), (48, [6, 9, 9, 9, 6, 0]), (49, [4, 12, 4, 4, 14, 0]),
     (50, [14, 1, 6, 8, 15, 0]), (51, [14, 1, 6, 1, 14, 0]), (52, [9, 9, 15, 1, 1, 0]),
     (53, [15, 8, 14, 1, 14, 0]), (54, [6, 8, 14, 9, 6, 0]), (55, [15, 1, 2, 4, 4, 0]),
     (56, [6, 9, 6, 9, 6, 0]), (57, [6, 9, 7, 1, 6, 0]), (58, [0, 4, 0, 4, 0, 0]),
     (59, [0, 4, 0, 4, 8, 0]), (60, [2, 4, 8, 4, 2, 0]), (61, [0, 14, 0, 14, 0, 0]),
     (62, [8, 4, 2, 4, 8, 0]), (63, [14, 1, 6, 0, 4, 0]), (64, [6, 9, 11, 8, 6, 0]),
     (65, [6, 9, 15, 9, 9, 0]), (66, [14, 9, 14, 9, 14, 0]), (67, [6, 9, 8, 9, 6, 0]),
     (68, [14, 9, 9, 9, 14, 0]), (69, [15, 8, 14, 8, 15, 0]), (70, [15, 8, 14, 8, 8, 0]),
     (71, [6, 8, 11, 9, 6, 0]), (72, [9, 9, 15, 9, 9, 0]), (73, [14, 4, 4, 4, 14, 0]),
     (74, [7, 2, 2, 10, 4, 0]), (75, [9, 10, 12, 10, 9, 0]), (76, [8, 8, 8, 8, 15, 0]),
     (77, [9, 15, 15, 9, 9, 0]), (78, [9, 13, 11, 9, 9, 0]), (79, [6, 9, 9, 9, 6, 0]),
     (80, [14, 9, 14, 8, 8, 0]), (81, [6, 9, 9, 11, 7, 0]), (82, [14, 9, 14, 10, 9, 0]),
     (83, [7, 8, 6, 1, 14, 0]), (84, [14, 4, 4, 4, 4, 0]), (85, [9, 9, 9, 9, 6, 0]),
     (86, [9, 9, 9, 6, 6, 0]), (87, [9, 9, 15, 15, 9, 0]), (88, [9, 9, 6, 9, 9, 0]),
     (89, [9, 9, 6, 4, 4, 0]), (90, [15, 2, 4, 8, 15, 0]), (91, [6, 4, 4, 4, 6, 0]),
     (92, [8, 4, 2, 1, 0, 0]), (93, [6, 2, 2, 2, 6, 0]), (94, [4, 10, 0, 0, 0, 0]),
     (95, [0, 0, 0, 0, 15, 0]), (96, [8, 4, 0, 0, 0, 0]), (123, [2, 4, 8, 4, 2, 0]),
     (124, [4, 4, 4, 4, 4, 0]), (125, [8, 4, 2, 4, 8, 0]), (126, [0, 5, 10, 0, 0, 0])]"

definition glyph_rows :: "nat \<Rightarrow> nat list" where
  "glyph_rows r = (case map_of font4x6 r of
     Some rows \<Rightarrow> rows
   | None \<Rightarrow>
      (case (if 97 \<le> r \<and> r \<le> 122 then map_of font4x6 (r - 32) else None) of
         Some rows \<Rightarrow> rows
       | None \<Rightarrow> (case map_of font4x6 63 of Some rows \<Rightarrow> rows | None \<Rightarrow> replicate 6 0)))"

definition setPixel :: "int \<Rightarrow> int \<Rightarrow> rgb \<Rightarrow> byte8 list \<Rightarrow> byte8 list" where
  "setPixel x y c buf =
     (if x < 0 \<or> x \<ge> DisplayWidth \<or> y < 0 \<or> y \<ge> DisplayHeight then buf
      else let idx = (y * DisplayWidth + x) * DisplayBytesPerPixel in
        if idx < 0 \<or> idx + 2 \<ge> int (length buf) then buf
        else buf[nat idx := rgb_r c, nat idx + 1 := rgb_g c, nat idx + 2 := rgb_b c])"

definition glyph_width :: int where "glyph_width = 4"
definition glyph_height :: int where "glyph_height = 6"
definition glyph_pitch :: int where "glyph_pitch = 5"

text \<open>The test of a bit of a row: the leftmost column is bit 3.\<close>

definition row_bit :: "nat \<Rightarrow> int \<Rightarrow> bool" where
  "row_bit bs col \<longleftrightarrow> odd (drop_bit (nat (glyph_width - 1 - col)) bs)"

definition draw_row :: "nat \<Rightarrow> int \<Rightarrow> int \<Rightarrow> rgb \<Rightarrow> byte8 list \<Rightarrow> byte8 list" where
  "draw_row bs start_x y c buf =
     fold (\<lambda>col b. let x = start_x + col in
       if x < 0 \<or> x \<ge> DisplayWidth then b
       else if row_bit bs col then setPixel x y c b else b) [0..glyph_width - 1] buf"

definition drawGlyph :: "nat \<Rightarrow> int \<Rightarrow> int \<Rightarrow> rgb \<Rightarrow> byte8 list \<Rightarrow> byte8 list" where
  "drawGlyph r start_x start_y c buf =
     fold (\<lambda>row b. let y = start_y + row in
       if y < 0 \<or> y \<ge> DisplayHeight then b
       else draw_row (glyph_rows r ! nat row) start_x y c b) [0..glyph_height - 1] buf"

fun draw_runes :: "nat list \<Rightarrow> int \<Rightarrow> int \<Rightarrow> rgb \<Rightarrow> byte8 list \<Rightarrow> byte8 list" where
  "draw_runes [] x y c buf = buf"
| "draw_runes (r # rs) x y c buf =
     (if x \<ge> DisplayWidth then buf else draw_runes rs (x + glyph_pitch) y c (drawGlyph r x y c buf))"

definition drawString :: "string \<Rightarrow> int \<Rightarrow> int \<Rightarrow> rgb \<Rightarrow> byte8 list \<Rightarrow> byte8 list" where
  "drawString s start_x start_y c buf = draw_runes (runes s) start_x start_y c buf"

definition RenderFrame :: "display_state \<Rightarrow> frame" where
  "RenderFrame st =
     (let top = (if ds_mode st = DisplayModeBusy then colorBusyTitle else colorIdleDate);
          bottom = (if ds_mode st = DisplayModeBusy then colorBusyCountdown else colorIdleTime);
          buf = drawString (ds_bottom_line st) 1 9 bottom
            (drawString (ds_top_line st) 1 1 top (replicate (nat DisplayBufferSize) 0))
      in \<lparr>fr_screen = Screen_FRONT, fr_width = 72, fr_height = 16, fr_encoding = Encoding_PLAIN,
          fr_pixel_format = PixelFormat_RGB888, fr_data = buf\<rparr>)"

section \<open>Step\<close>

text \<open>
  \<open>now\<close> is the clock of the step, \<open>ev\<close> what the tracker answered by its own clock, and \<open>push\<close> what
  \<open>PushFrame\<close> answers. The result is the frame given to it, if any, the error,
  and the new state.
\<close>

definition same_content :: "display_state \<Rightarrow> display_state \<Rightarrow> bool" where
  "same_content a b \<longleftrightarrow> ds_mode a = ds_mode b \<and> ds_top_line a = ds_top_line b \<and> ds_bottom_line a = ds_bottom_line b"

definition orch_step :: "int \<Rightarrow> gtime \<Rightarrow> active_event \<Rightarrow> (frame \<Rightarrow> push_error option) \<Rightarrow> orchestrator
    \<Rightarrow> frame option \<times> push_error option \<times> orchestrator" where
  "orch_step offset now ev push o1 =
     (if \<not> oo_enabled o1 \<or> \<not> oo_has_tracker o1 \<or> \<not> oo_has_push o1 then (None, None, o1)
      else let st = FormatDisplayState offset ev now;
               need_push = \<not> oo_has_pushed o1 \<or> \<not> same_content st (oo_last_state o1)
                 \<or> time_sub now (oo_last_push_at o1) \<ge> oo_keep_alive o1
           in if \<not> need_push then (None, None, o1)
              else let fr = RenderFrame st in
                (case push fr of
                   Some err \<Rightarrow> (Some fr, Some err, o1)
                 | None \<Rightarrow> (Some fr, None,
                     o1\<lparr>oo_last_state := st, oo_last_push_at := now, oo_has_pushed := True\<rparr>)))"

text \<open>
  A step with the poller as tracker, whose clock says \<open>now'\<close>, and a push client; \<open>None\<close> is a call of
  \<open>PushFrame\<close> that blocks.
\<close>

definition orch_step_with :: "int \<Rightarrow> gtime \<Rightarrow> gtime \<Rightarrow> poller \<Rightarrow> 's recorder_ops \<Rightarrow> orchestrator \<Rightarrow> push_client \<times> 's
    \<Rightarrow> (push_error option \<times> orchestrator \<times> push_client \<times> 's) option" where
  "orch_step_with offset now now' p ops o1 cs =
     (case orch_step offset now (GetCurrentEvent now' p)
         (\<lambda>f. case push_frame ops (Some f) cs of Some (err, _) \<Rightarrow> err | None \<Rightarrow> None) o1 of
       (None, err, o2) \<Rightarrow> Some (err, o2, cs)
     | (Some f, err, o2) \<Rightarrow> map_option (\<lambda>(_, cs'). (err, o2, cs')) (push_frame ops (Some f) cs))"

text \<open>\<open>None\<close> is the nil orchestrator; \<open>ev\<close> is the answer of the tracker, if there is one.\<close>

definition GetDisplayState :: "int \<Rightarrow> gtime \<Rightarrow> active_event \<Rightarrow> orchestrator option \<Rightarrow> display_state" where
  "GetDisplayState offset now ev o1 = (case o1 of
     None \<Rightarrow> FormatDisplayState offset idle_event now
   | Some x \<Rightarrow>
      if oo_has_pushed x then oo_last_state x
      else FormatDisplayState offset (if oo_has_tracker x then ev else idle_event) now)"

section \<open>Every pixel of a frame\<close>

definition pixel :: "byte8 list \<Rightarrow> int \<Rightarrow> int \<Rightarrow> rgb" where
  "pixel buf x y = (let i = nat ((y * DisplayWidth + x) * DisplayBytesPerPixel) in
     \<lparr>rgb_r = buf ! i, rgb_g = buf ! (i + 1), rgb_b = buf ! (i + 2)\<rparr>)"

definition on_screen :: "int \<Rightarrow> int \<Rightarrow> bool" where
  "on_screen x y \<longleftrightarrow> 0 \<le> x \<and> x < DisplayWidth \<and> 0 \<le> y \<and> y < DisplayHeight"

definition paints :: "(byte8 list \<Rightarrow> byte8 list) \<Rightarrow> (int \<times> int) set \<Rightarrow> rgb \<Rightarrow> bool" where
  "paints f S c \<longleftrightarrow> (\<forall>buf. length buf = nat DisplayBufferSize \<longrightarrow>
     length (f buf) = nat DisplayBufferSize
     \<and> (\<forall>x y. on_screen x y \<longrightarrow> pixel (f buf) x y = (if (x, y) \<in> S then c else pixel buf x y)))"

lemma paints_id: "paints (\<lambda>b. b) {} c"
  by (simp add: paints_def)

lemma paints_comp: "paints f S c \<Longrightarrow> paints g T c \<Longrightarrow> paints (\<lambda>b. g (f b)) (S \<union> T) c"
  by (auto simp: paints_def)

lemma paints_fold: "(\<And>a. a \<in> set xs \<Longrightarrow> paints (f a) (S a) c) \<Longrightarrow> paints (fold f xs) (\<Union>a \<in> set xs. S a) c"
proof (induction xs)
  case Nil
  then show ?case using paints_id by (simp add: id_def)
next
  case (Cons a xs)
  then have "paints (\<lambda>b. fold f xs (f a b)) (S a \<union> (\<Union>a \<in> set xs. S a)) c" by (intro paints_comp) auto
  then show ?case by (simp add: comp_def)
qed

lemma pixel_index:
  assumes "on_screen x y" "on_screen x' y'"
  shows "(y * 72 + x) * 3 = (y' * 72 + x') * (3::int) \<longleftrightarrow> x = x' \<and> y = y'"
proof -
  have r: "0 \<le> x" "x < 72" "0 \<le> x'" "x' < 72" using assms by (simp_all add: on_screen_def display_consts)
  have "y = y'" if "y * 72 + x = y' * 72 + x'" using that r by linarith
  then have "y * 72 + x = y' * 72 + x' \<Longrightarrow> x = x' \<and> y = y'" by fastforce
  then show ?thesis by auto
qed

lemma setPixel_paints: "on_screen x y \<Longrightarrow> paints (setPixel x y c) {(x, y)} c"
proof -
  assume xy: "on_screen x y"
  define i where "i = nat ((y * 72 + x) * 3)"
  have i: "i + 2 < 3456" "int i = (y * 72 + x) * 3" using xy by (auto simp: i_def on_screen_def display_consts)
  have set_buf: "setPixel x y c buf = buf[i := rgb_r c, i + 1 := rgb_g c, i + 2 := rgb_b c]" if "length buf = 3456" for buf
  proof -
    have "\<not> (y * 72 + x) * 3 < 0" "\<not> (y * 72 + x) * 3 + 2 \<ge> int (length buf)" using i that by linarith+
    then show ?thesis using xy by (simp add: setPixel_def on_screen_def display_consts i_def Let_def)
  qed
  have "pixel (setPixel x y c buf) x' y' = (if (x', y') \<in> {(x, y)} then c else pixel buf x' y')"
    if b: "length buf = 3456" and xy': "on_screen x' y'" for buf x' y'
  proof (cases "x' = x \<and> y' = y")
    case True
    have "pixel d x y = \<lparr>rgb_r = d ! i, rgb_g = d ! (i + 1), rgb_b = d ! (i + 2)\<rparr>" for d
      by (simp only: pixel_def Let_def display_consts i_def)
    then show ?thesis using True i(1) b by (simp add: set_buf [OF b])
  next
    case False
    define j where "j = nat ((y' * 72 + x') * 3)"
    have j: "int j = (y' * 72 + x') * 3" using xy' by (simp add: j_def on_screen_def display_consts)
    have "i \<noteq> j" using False pixel_index [OF xy xy'] i(2) j by auto
    moreover have "3 dvd int i" "3 dvd int j" using i(2) j by simp_all
    ultimately have "j \<noteq> i" "j \<noteq> i + 1" "j \<noteq> i + 2" "j + 1 \<noteq> i" "j + 2 \<noteq> i" "j + 1 \<noteq> i + 2" "j + 2 \<noteq> i + 1"
      by presburger+
    moreover have "pixel d x' y' = \<lparr>rgb_r = d ! j, rgb_g = d ! (j + 1), rgb_b = d ! (j + 2)\<rparr>" for d
      by (simp only: pixel_def Let_def display_consts j_def)
    ultimately show ?thesis using False by (auto simp: set_buf [OF b])
  qed
  then show ?thesis using set_buf by (simp add: paints_def display_consts)
qed

definition row_pixels :: "nat \<Rightarrow> int \<Rightarrow> int \<Rightarrow> (int \<times> int) set" where
  "row_pixels b start_x y = {(x, y') | x y'. y' = y \<and> start_x \<le> x \<and> x < start_x + 4 \<and> row_bit b (x - start_x)}"

lemma paints_cut: "paints f S c \<Longrightarrow> (\<And>x y. on_screen x y \<Longrightarrow> (x, y) \<in> S \<longleftrightarrow> (x, y) \<in> T) \<Longrightarrow> paints f T c"
  by (simp add: paints_def)

lemma draw_row_paints: "0 \<le> y \<Longrightarrow> y < 16 \<Longrightarrow> paints (draw_row b start_x y c) (row_pixels b start_x y) c"
proof -
  assume y: "0 \<le> y" "y < 16"
  let ?f = "\<lambda>col buf. let x = start_x + col in
    if x < 0 \<or> x \<ge> DisplayWidth then buf else if row_bit b col then setPixel x y c buf else buf"
  let ?S = "\<lambda>col. if on_screen (start_x + col) y \<and> row_bit b col then {(start_x + col, y)} else {}"
  have "paints (?f col) (?S col) c" for col
  proof (cases "on_screen (start_x + col) y \<and> row_bit b col")
    case True
    then show ?thesis using setPixel_paints [of "start_x + col" y c] by (simp add: on_screen_def Let_def)
  next
    case False
    then have "?f col = (\<lambda>buf. buf)" using y by (auto simp: on_screen_def display_consts Let_def)
    then show ?thesis unfolding if_not_P [OF False] by (simp only: paints_id)
  qed
  then have "paints (fold ?f [0..glyph_width - 1]) (\<Union>col \<in> set [0..glyph_width - 1]. ?S col) c" by (rule paints_fold)
  moreover have "draw_row b start_x y c = fold ?f [0..glyph_width - 1]" by (simp add: draw_row_def fun_eq_iff)
  ultimately have "paints (draw_row b start_x y c) (\<Union>col \<in> set [0..glyph_width - 1]. ?S col) c" by simp
  then show ?thesis
  proof (rule paints_cut)
    fix x y' assume "on_screen x y'"
    then have "(x, y') \<in> (\<Union>col \<in> {0..3}. ?S col) \<longleftrightarrow> y' = y \<and> x - start_x \<in> {0..3} \<and> row_bit b (x - start_x)"
      by (auto split: if_splits intro!: bexI [of _ "x - start_x"])
    then show "(x, y') \<in> (\<Union>col \<in> set [0..glyph_width - 1]. ?S col) \<longleftrightarrow> (x, y') \<in> row_pixels b start_x y"
      by (auto simp: row_pixels_def glyph_width_def)
  qed
qed

definition glyph_pixels :: "nat \<Rightarrow> int \<Rightarrow> int \<Rightarrow> (int \<times> int) set" where
  "glyph_pixels r start_x start_y = {(x, y). start_x \<le> x \<and> x < start_x + 4 \<and> start_y \<le> y \<and> y < start_y + 6
     \<and> row_bit (glyph_rows r ! nat (y - start_y)) (x - start_x)}"

lemma drawGlyph_paints: "paints (drawGlyph r start_x start_y c) (glyph_pixels r start_x start_y) c"
proof -
  let ?f = "\<lambda>row buf. let y = start_y + row in
    if y < 0 \<or> y \<ge> DisplayHeight then buf else draw_row (glyph_rows r ! nat row) start_x y c buf"
  let ?S = "\<lambda>row. if 0 \<le> start_y + row \<and> start_y + row < 16
    then row_pixels (glyph_rows r ! nat row) start_x (start_y + row) else {}"
  have "paints (?f row) (?S row) c" for row
  proof (cases "0 \<le> start_y + row \<and> start_y + row < 16")
    case True
    then show ?thesis using draw_row_paints [of "start_y + row"] by (simp add: display_consts Let_def)
  next
    case False
    then have "?f row = (\<lambda>buf. buf)" by (auto simp: display_consts Let_def)
    then show ?thesis unfolding if_not_P [OF False] by (simp only: paints_id)
  qed
  then have "paints (fold ?f [0..glyph_height - 1]) (\<Union>row \<in> set [0..glyph_height - 1]. ?S row) c" by (rule paints_fold)
  moreover have "drawGlyph r start_x start_y c = fold ?f [0..glyph_height - 1]" by (simp add: drawGlyph_def fun_eq_iff)
  ultimately have "paints (drawGlyph r start_x start_y c) (\<Union>row \<in> set [0..glyph_height - 1]. ?S row) c" by simp
  then show ?thesis
  proof (rule paints_cut)
    fix x y assume "on_screen x y"
    then have "(x, y) \<in> (\<Union>row \<in> {0..5}. ?S row) \<longleftrightarrow> y - start_y \<in> {0..5}
        \<and> (x, y) \<in> row_pixels (glyph_rows r ! nat (y - start_y)) start_x y"
      by (auto simp: on_screen_def display_consts row_pixels_def split: if_splits intro!: bexI [of _ "y - start_y"])
    then show "(x, y) \<in> (\<Union>row \<in> set [0..glyph_height - 1]. ?S row) \<longleftrightarrow> (x, y) \<in> glyph_pixels r start_x start_y"
      by (auto simp: glyph_pixels_def row_pixels_def glyph_height_def)
  qed
qed

definition text_pixels :: "nat list \<Rightarrow> int \<Rightarrow> int \<Rightarrow> (int \<times> int) set" where
  "text_pixels rs x y = (\<Union>i < length rs. glyph_pixels (rs ! i) (x + glyph_pitch * int i) y)"

lemma text_pixels_Cons:
  "text_pixels (r # rs) x y = glyph_pixels r x y \<union> text_pixels rs (x + glyph_pitch) y"
proof -
  have "{..< length (r # rs)} = insert 0 (Suc ` {..< length rs})" by (auto simp: lessThan_Suc_eq_insert_0)
  then show ?thesis by (auto simp: text_pixels_def algebra_simps)
qed

lemma draw_runes_paints: "paints (draw_runes rs x y c) (text_pixels rs x y) c"
proof (induction rs arbitrary: x)
  case Nil
  have "draw_runes [] x y c = (\<lambda>b. b)" by (simp add: fun_eq_iff)
  then show ?case using paints_id by (simp add: text_pixels_def)
next
  case (Cons r rs)
  show ?case
  proof (cases "x \<ge> DisplayWidth")
    case True
    then have "draw_runes (r # rs) x y c = (\<lambda>b. b)" by (simp add: fun_eq_iff)
    then have "paints (draw_runes (r # rs) x y c) {} c" using paints_id by simp
    then show ?thesis
      by (rule paints_cut) (use True in \<open>auto simp: text_pixels_def glyph_pixels_def on_screen_def glyph_pitch_def\<close>)
  next
    case False
    then have "draw_runes (r # rs) x y c = (\<lambda>b. draw_runes rs (x + glyph_pitch) y c (drawGlyph r x y c b))"
      by (simp add: fun_eq_iff)
    then show ?thesis
      using paints_comp [OF drawGlyph_paints [of r x y c] Cons.IH] by (simp add: text_pixels_Cons)
  qed
qed

lemma render_frame_length: "length (fr_data (RenderFrame st)) = nat DisplayBufferSize"
  using draw_runes_paints by (simp add: RenderFrame_def drawString_def paints_def Let_def)

text \<open>
  C7: the rendered frame is exactly the text. It has 72 by 16 pixels of three bytes; a pixel has
  the colour of the top line where a glyph of the top line, six rows from row 1, has its bit set,
  the colour of the bottom line where one of the bottom line, from row 9, has, and is black
  everywhere else.
\<close>

theorem frame_shows_text:
  "let top = text_pixels (runes (ds_top_line st)) 1 1; bottom = text_pixels (runes (ds_bottom_line st)) 1 9;
       data = fr_data (RenderFrame st); busy = (ds_mode st = DisplayModeBusy)
   in length data = 72 * 16 * 3
     \<and> (\<forall>x \<in> {0..71}. \<forall>y \<in> {0..15}. pixel data x y =
          (if (x, y) \<in> bottom then (if busy then colorBusyCountdown else colorIdleTime)
           else if (x, y) \<in> top then (if busy then colorBusyTitle else colorIdleDate)
           else \<lparr>rgb_r = 0, rgb_g = 0, rgb_b = 0\<rparr>))"
proof -
  let ?busy = "ds_mode st = DisplayModeBusy"
  let ?ct = "if ?busy then colorBusyTitle else colorIdleDate"
  let ?cb = "if ?busy then colorBusyCountdown else colorIdleTime"
  define b0 where "b0 = replicate (nat DisplayBufferSize) (0 :: byte8)"
  define b1 where "b1 = drawString (ds_top_line st) 1 1 ?ct b0"
  have d: "fr_data (RenderFrame st) = drawString (ds_bottom_line st) 1 9 ?cb b1"
    by (simp add: RenderFrame_def b1_def b0_def Let_def)
  have l0: "length b0 = nat DisplayBufferSize" by (simp add: b0_def)
  have b1: "length b1 = nat DisplayBufferSize \<and> (\<forall>x y. on_screen x y \<longrightarrow> pixel b1 x y =
      (if (x, y) \<in> text_pixels (runes (ds_top_line st)) 1 1 then ?ct else pixel b0 x y))"
    using draw_runes_paints l0 unfolding b1_def drawString_def paints_def by blast
  have b2: "length (fr_data (RenderFrame st)) = nat DisplayBufferSize \<and> (\<forall>x y. on_screen x y \<longrightarrow>
      pixel (fr_data (RenderFrame st)) x y =
      (if (x, y) \<in> text_pixels (runes (ds_bottom_line st)) 1 9 then ?cb else pixel b1 x y))"
    using draw_runes_paints b1 unfolding d drawString_def paints_def by blast
  have "pixel b0 x y = \<lparr>rgb_r = 0, rgb_g = 0, rgb_b = 0\<rparr>" if "on_screen x y" for x y
    using that by (auto simp: pixel_def b0_def on_screen_def display_consts Let_def)
  moreover have "on_screen x y" if "x \<in> {0..71}" "y \<in> {0..15}" for x y
    using that by (simp add: on_screen_def display_consts)
  moreover have "nat DisplayBufferSize = 72 * 16 * 3" by (simp add: display_consts)
  ultimately show ?thesis unfolding Let_def using b1 b2 by simp
qed

lemma frame_shows_text_witness:
  "pixel (fr_data (RenderFrame \<lparr>ds_mode = DisplayModeBusy, ds_top_line = ''L'', ds_bottom_line = ''1'',
     ds_updated_at = 0\<rparr>)) 1 1 = colorBusyTitle"
proof -
  let ?st = "\<lparr>ds_mode = DisplayModeBusy, ds_top_line = ''L'', ds_bottom_line = ''1'', ds_updated_at = 0\<rparr>"
  have r: "runes ''L'' = [76]" "runes ''1'' = [49]" by (simp_all add: runes_all_ascii)
  have g: "glyph_rows 76 = [8, 8, 8, 8, 15, 0]" by (simp add: glyph_rows_def font4x6_def)
  have t: "(1, 1) \<in> text_pixels [76] 1 1" "(1, 1) \<notin> text_pixels [49] 1 9"
    by (simp_all add: text_pixels_def glyph_pixels_def g row_bit_def glyph_width_def drop_bit_eq_div)
  have "(1::int) \<in> {0..71}" "(1::int) \<in> {0..15}" by simp_all
  then show ?thesis using frame_shows_text [of ?st] t by (simp add: Let_def r)
qed

section \<open>The text fits\<close>

lemma length_pad2_small: "- 1000 < n \<Longrightarrow> n < 1000 \<Longrightarrow> length (pad2 n) \<le> 4"
proof -
  assume a: "- 1000 < n" "n < 1000"
  have d: "length (nat_digits k) \<le> 3" if "k < 1000" for k using length_nat_digits [of k 3] that by simp
  show "length (pad2 n) \<le> 4"
  proof (cases "0 \<le> n \<and> n < 10")
    case True
    then have "length (itoa n) \<le> 1" using itoa_range [of n 1] by simp
    then show ?thesis using True by (simp add: pad2_def)
  next
    case False
    moreover have "nat n < 1000" "nat (- n) < 1000" using a by linarith+
    ultimately show ?thesis using d [of "nat n"] d [of "nat (- n)"] by (auto simp: pad2_def itoa_def)
  qed
qed

lemma month_start_range: "1 \<le> m \<Longrightarrow> m \<le> 12 \<Longrightarrow> 0 \<le> month_starts leap ! nat (m - 1) \<and> month_starts leap ! nat (m - 1) \<le> 366"
proof -
  assume "1 \<le> m" "m \<le> 12"
  then have "nat (m - 1) < length (month_starts leap)" by (simp add: month_starts_def)
  then have "month_starts leap ! nat (m - 1) \<in> set (month_starts leap)" by (rule nth_mem)
  then show ?thesis by (auto simp: month_starts_def split: if_splits)
qed

lemma date_of_day: "- 1000 < dt_day (date_of z t) \<and> dt_day (date_of z t) < 1000"
proof -
  obtain y yday where e: "year_of_day ((t div second + z) div 86400) = (y, yday)" by fastforce
  have r: "0 \<le> yday" "yday \<le> 365" using year_of_day_yday [of "(t div second + z) div 86400"] e by simp_all
  have m: "1 \<le> month_of (is_leap y) yday \<and> month_of (is_leap y) yday \<le> 12"
    using date_of_month [of z t] e by (simp add: date_of_def Let_def)
  then show ?thesis using month_start_range [of "month_of (is_leap y) yday" "is_leap y"] r e
    by (simp add: date_of_def Let_def)
qed

lemma names_short: "\<forall>w \<in> set weekday_names. length w = 3" "\<forall>m \<in> set month_names. length m = 3"
  by (simp_all add: weekday_names_def month_names_def)

lemma format_day_short: "length (format_day z t) \<le> 12"
proof -
  have "nat (dt_weekday (date_of z t)) < 7" "nat (dt_month (date_of z t) - 1) < 12"
    using date_of_ranges [of z t] date_of_month [of z t] by linarith+
  then have "nat (dt_weekday (date_of z t)) < length weekday_names"
      and m: "nat (dt_month (date_of z t) - 1) < length month_names"
    by (simp_all add: weekday_names_def month_names_def)
  then have "length (weekday_names ! nat (dt_weekday (date_of z t))) = 3"
    using names_short(1) nth_mem by blast
  moreover have "length (month_names ! nat (dt_month (date_of z t) - 1)) = 3"
    using names_short(2) nth_mem [OF m] by blast
  ultimately show ?thesis using length_pad2_small [of "dt_day (date_of z t)"] date_of_day [of z t]
    by (simp add: format_day_def Let_def)
qed

lemma format_clock_short: "length (format_clock z t) = 5"
  using date_of_ranges [of z t] by (simp add: format_clock_def Let_def length_pad2)

lemma clip_runes [simp]: "length (runes (string_of_runes (take n (runes s)))) = min n (length (runes s))"
proof -
  have "\<forall>r \<in> set (take n (runes s)). valid_rune r" using runes_valid by (meson in_set_takeD)
  from runes_string_of_runes [OF this] show ?thesis by (simp add: min.commute)
qed

lemma TruncateTitle_short: "length (runes (TruncateTitle su MaxDisplayChars)) \<le> 14"
  by (simp add: TruncateTitle_def display_consts Let_def)

lemma TruncateTitle_nonempty: "TruncateTitle su MaxDisplayChars \<noteq> ''''"
proof -
  let ?t = "if trim_space su = '''' then FallbackEventTitle else trim_space su"
  have "?t \<noteq> ''''" by (simp add: FallbackEventTitle_def)
  moreover have "string_of_runes (take 14 (runes ?t)) \<noteq> ''''" if "int (length (runes ?t)) > 14"
    using that by (cases "runes ?t") (auto simp: string_of_runes_def)
  ultimately show ?thesis by (simp add: TruncateTitle_def display_consts Let_def)
qed

lemma state_lines_short:
  "length (runes (ds_top_line (FormatDisplayState z ev now))) \<le> 14
   \<and> length (runes (ds_bottom_line (FormatDisplayState z ev now))) \<le> 14"
proof (cases "ev_idle ev")
  case True
  have "length (runes (format_day z now)) \<le> 14" "length (runes (format_clock z now)) \<le> 14"
    using length_runes [of "format_day z now"] length_runes [of "format_clock z now"]
      format_day_short [of z now] format_clock_short [of z now] by linarith+
  then show ?thesis using True by (simp add: FormatDisplayState_def)
next
  case False
  then show ?thesis
    using TruncateTitle_short [of "ev_summary ev"]
    by (simp add: FormatDisplayState_def display_consts Let_def)
qed

text \<open>
  C32: the text always fits. Whatever the event's title and countdown, each line has at most 14
  runes, a busy screen has a title, and no pixel of either line falls outside the 72 by 16 screen.
\<close>

theorem display_text_fits:
  "let st = FormatDisplayState offset ev now in
     length (runes (ds_top_line st)) \<le> 14 \<and> length (runes (ds_bottom_line st)) \<le> 14
     \<and> (ds_mode st = DisplayModeBusy \<longrightarrow> ds_top_line st \<noteq> '''')
     \<and> text_pixels (runes (ds_top_line st)) 1 1 \<subseteq> {0..71} \<times> {0..15}
     \<and> text_pixels (runes (ds_bottom_line st)) 1 9 \<subseteq> {0..71} \<times> {0..15}"
proof -
  have fits: "text_pixels rs 1 y \<subseteq> {0..71} \<times> {0..15}" if l: "length rs \<le> 14" and y: "y = 1 \<or> y = 9" for rs y
  proof -
    have "i \<le> 13" if "i < length rs" for i using l that by linarith
    then show ?thesis using y by (fastforce simp: text_pixels_def glyph_pixels_def glyph_pitch_def)
  qed
  have "ds_mode (FormatDisplayState offset ev now) = DisplayModeBusy \<longrightarrow>
      ds_top_line (FormatDisplayState offset ev now) \<noteq> ''''"
    using TruncateTitle_nonempty by (simp add: FormatDisplayState_def Let_def)
  then show ?thesis
    using state_lines_short [of offset ev now] fits unfolding Let_def by simp
qed

lemma display_text_fits_witness:
  "ds_top_line (FormatDisplayState 0 (idle_event\<lparr>ev_idle := False\<rparr>) 0) \<noteq> ''''"
  using display_text_fits [of 0 "idle_event\<lparr>ev_idle := False\<rparr>" 0]
  by (simp add: Let_def) (simp add: FormatDisplayState_def Let_def)

section \<open>The screen follows the calendar\<close>

text \<open>
  C14: the orchestrator keeps what it hands to the push client current. A step needs a frame when
  none was pushed yet, the text for the present event and time differs from the last one, or the
  keep-alive interval passed. It never blocks. When it needs one and the client is open and enabled,
  the rendering of the present state is what waits in the client's slot afterwards, and that state
  and time are what is remembered; a closed client gives its error, and nothing is remembered, so
  that the next step tries again; a disabled one is not told from one that took the frame. So after
  every step without error the state remembered has the present content and is younger than the
  interval. The screen is busy exactly when the poller's event covers the time the poller's clock
  shows, which is read after the step's own.
\<close>

theorem step_keeps_display_current:
  assumes "mailbox_ok c" "oo_enabled o1" "oo_has_tracker o1" "oo_has_push o1" "0 < oo_keep_alive o1"
  shows "\<exists>err o2 c' rs'. orch_step_with offset now now' p ops o1 (c, rs) = Some (err, o2, c', rs') \<and> mailbox_ok c'
    \<and> (let st = FormatDisplayState offset (GetCurrentEvent now' p) now;
          needed = (\<not> oo_has_pushed o1 \<or> \<not> same_content st (oo_last_state o1)
            \<or> oo_keep_alive o1 \<le> time_sub now (oo_last_push_at o1));
          told = o1\<lparr>oo_last_state := st, oo_last_push_at := now, oo_has_pushed := True\<rparr> in
        (if \<not> needed then err = None \<and> o2 = o1 \<and> c' = c \<and> rs' = rs
         else if \<not> pc_enabled (pu_cfg c) then err = None \<and> o2 = told \<and> c' = c \<and> rs' = rs
         else if pu_closed c then err = Some ErrClientClosed \<and> o2 = o1 \<and> c' = c \<and> rs' = rs
         else err = None \<and> o2 = told \<and> ch_buf (pu_mailbox c') = [RenderFrame st]
           \<and> rs' = (if ch_buf (pu_mailbox c) = [] then rs else ro_drop ops rs))
        \<and> (err = None \<longrightarrow> oo_has_pushed o2 \<and> same_content st (oo_last_state o2)
            \<and> time_sub now (oo_last_push_at o2) < oo_keep_alive o2)
        \<and> (ds_mode st = DisplayModeBusy \<longleftrightarrow> \<not> ev_idle (po_active p) \<and> ev_end_time (po_active p) \<noteq> 0
            \<and> ev_start_time (po_active p) \<le> now' \<and> now' < ev_end_time (po_active p)))"
proof -
  define st where "st = FormatDisplayState offset (GetCurrentEvent now' p) now"
  have busy: "ds_mode st = DisplayModeBusy \<longleftrightarrow> \<not> ev_idle (po_active p) \<and> ev_end_time (po_active p) \<noteq> 0
        \<and> ev_start_time (po_active p) \<le> now' \<and> now' < ev_end_time (po_active p)"
    by (auto simp: st_def FormatDisplayState_def GetCurrentEvent_def idle_event_def Let_def)
  have t0: "time_sub now now = 0" by (simp add: time_sub_def go_arith)
  have "fr_data (RenderFrame st) \<noteq> []" using render_frame_length [of st] by (auto simp: display_consts)
  from push_frame_result [OF assms(1) this, of ops rs] obtain e c1 rs1 where
    f: "push_frame ops (Some (RenderFrame st)) (c, rs) = Some (e, c1, rs1)" "mailbox_ok c1"
      "if \<not> pc_enabled (pu_cfg c) then e = None \<and> c1 = c \<and> rs1 = rs
       else if pu_closed c then e = Some ErrClientClosed \<and> c1 = c \<and> rs1 = rs
       else e = None \<and> ch_buf (pu_mailbox c1) = [RenderFrame st]
         \<and> rs1 = (if ch_buf (pu_mailbox c) = [] then rs else ro_drop ops rs)" by blast
  let ?needed = "\<not> oo_has_pushed o1 \<or> \<not> same_content st (oo_last_state o1)
      \<or> oo_keep_alive o1 \<le> time_sub now (oo_last_push_at o1)"
  show ?thesis
  proof (cases ?needed)
    case False
    then have "orch_step_with offset now now' p ops o1 (c, rs) = Some (None, o1, c, rs)"
      using assms(2-4) by (simp add: orch_step_with_def orch_step_def Let_def flip: st_def)
    then show ?thesis using False assms(1) busy unfolding Let_def st_def [symmetric] by (simp add: not_le)
  next
    case True
    then have "orch_step_with offset now now' p ops o1 (c, rs) = Some (e,
        (if e = None then o1\<lparr>oo_last_state := st, oo_last_push_at := now, oo_has_pushed := True\<rparr> else o1), c1, rs1)"
      using assms(2-4) f(1) by (auto simp: orch_step_with_def orch_step_def Let_def simp flip: st_def split: option.splits)
    then show ?thesis using True f(2,3) assms(5) busy t0 unfolding Let_def st_def [symmetric]
      by (auto simp: same_content_def split: if_splits)
  qed
qed

lemma step_keeps_display_current_witness:
  "\<exists>o2 c'. orch_step_with 0 (30 * second) (31 * second) demo_poller store_recorder (new_orchestrator True True True 0 0)
       (new_push_client demo_push_config, new_store 0) = Some (None, o2, c', new_store 0)
     \<and> ch_buf (pu_mailbox c') = [RenderFrame (FormatDisplayState 0 (GetCurrentEvent (31 * second) demo_poller) (30 * second))]"
proof -
  let ?o = "new_orchestrator True True True 0 0" and ?c = "new_push_client demo_push_config"
  have k: "oo_enabled ?o" "oo_has_tracker ?o" "oo_has_push ?o" "0 < oo_keep_alive ?o" "\<not> oo_has_pushed ?o"
    by (simp_all add: new_orchestrator_def DefaultKeepAliveInterval_def second_def)
  have c: "pc_enabled (pu_cfg ?c)" "\<not> pu_closed ?c" "ch_buf (pu_mailbox ?c) = []"
    by (simp_all add: new_push_client_def demo_push_config_def)
  from step_keeps_display_current [OF new_push_client_ok [of demo_push_config] k(1-4),
      of 0 "30 * second" "31 * second" demo_poller store_recorder "new_store 0"] k(5) c
  show ?thesis by (auto simp: Let_def)
qed

end
