(* ===== verification/GoNumbers.thy ===== *)
theory GoNumbers
  imports GoStrings Float64
begin

text \<open>
  The parsers of \<open>strconv\<close> and \<open>time\<close> that the configuration uses: \<open>ParseBool\<close>, \<open>ParseInt\<close> with
  base 0 (the one behind integer flags) and \<open>ParseDuration\<close>. \<open>None\<close> is an error.
\<close>

section \<open>Booleans and integers\<close>

definition parse_bool :: "string \<Rightarrow> bool option" where
  "parse_bool s = (if s \<in> set [''1'', ''t'', ''T'', ''true'', ''TRUE'', ''True''] then Some True
     else if s \<in> set [''0'', ''f'', ''F'', ''false'', ''FALSE'', ''False''] then Some False else None)"

text \<open>The value of a digit in any base, \<open>lower\<close> included; 36 for other bytes.\<close>

definition any_digit :: "char \<Rightarrow> nat" where
  "any_digit c = (if is_digit c then byte c - 48
     else if 97 \<le> byte c \<and> byte c \<le> 122 then byte c - 87
     else if 65 \<le> byte c \<and> byte c \<le> 90 then byte c - 55 else 36)"

definition base_prefix :: "string \<Rightarrow> (nat \<times> string) option" where
  "base_prefix s = (case s of
     z # b # r \<Rightarrow>
       if z \<noteq> CHR ''0'' then None
       else if b \<in> set ''bB'' then Some (2, r) else if b \<in> set ''oO'' then Some (8, r)
       else if b \<in> set ''xX'' then Some (16, r) else None
   | _ \<Rightarrow> None)"

text \<open>The underscore rule of base 0: an underscore stands between digits or after the prefix.\<close>

fun underscores_ok :: "bool \<Rightarrow> string \<Rightarrow> bool" where
  "underscores_ok after_digit [] = True"
| "underscores_ok after_digit (c # cs) =
     (if c = CHR ''_'' then after_digit \<and> cs \<noteq> [] \<and> underscores_ok False cs else underscores_ok True cs)"

definition parse_uint0 :: "string \<Rightarrow> nat option" where
  "parse_uint0 s =
     (if s = '''' then None
      else let (base, body) = (case base_prefix s of
                 Some (b, r) \<Rightarrow> if r \<noteq> [] then (b, r) else (8, tl s)
               | None \<Rightarrow> if hd s = CHR ''0'' then (8, tl s) else (10, s));
               ds = filter (\<lambda>c. c \<noteq> CHR ''_'') body
           in if \<not> list_all (\<lambda>c. any_digit c < base) ds then None
              else if \<not> (case base_prefix s of Some (_, r) \<Rightarrow> underscores_ok True r | None \<Rightarrow> underscores_ok False s)
              then None else Some (foldl (\<lambda>a c. a * base + any_digit c) 0 ds))"

definition parse_int0 :: "string \<Rightarrow> int option" where
  "parse_int0 s =
     (let (neg, body) = (case s of
            c # r \<Rightarrow> if c = CHR ''-'' then (True, r) else if c = CHR ''+'' then (False, r) else (False, s)
          | [] \<Rightarrow> (False, []))
      in (case parse_uint0 body of
            None \<Rightarrow> None
          | Some n \<Rightarrow> let v = (if neg then - int n else int n) in if in_int64 v then Some v else None))"

section \<open>Durations\<close>

definition duration_units :: "(string \<times> nat) list" where
  "duration_units = [(''ns'', 1), (''us'', 1000), ([CHR 0xC2, CHR 0xB5, CHR ''s''], 1000),
     ([CHR 0xCE, CHR 0xBC, CHR ''s''], 1000), (''ms'', 1000000), (''s'', 1000000000),
     (''m'', 60000000000), (''h'', 3600000000000)]"

text \<open>The fraction as an integer and the number of its digits that fit; later digits are ignored.\<close>

fun leading_fraction :: "nat \<Rightarrow> nat \<Rightarrow> string \<Rightarrow> nat \<times> nat" where
  "leading_fraction x k [] = (x, k)"
| "leading_fraction x k (c # cs) =
     (if x > 922337203685477580 \<or> x * 10 + (byte c - 48) > 2 ^ 63 then (x, k)
      else leading_fraction (x * 10 + (byte c - 48)) (Suc k) cs)"

text \<open>\<open>float64\<close> rounding of a positive rational of any size.\<close>

definition f64_wide :: "rat \<Rightarrow> rat" where
  "f64_wide q = (if q = 0 then 0 else let e = bits (nat \<lceil>1 / q\<rceil>) in f64 (q * 2 ^ e) / 2 ^ e)"

definition fraction_ns :: "nat \<times> nat \<Rightarrow> nat \<Rightarrow> nat" where
  "fraction_ns f unit = (case f of (x, k) \<Rightarrow>
     if x = 0 then 0
     else nat (f64_trunc (f64_wide (f64 (of_nat x) * f64_wide (of_nat unit / 10 ^ k)))))"

definition unit_char :: "char \<Rightarrow> bool" where
  "unit_char c \<longleftrightarrow> c \<noteq> CHR ''.'' \<and> \<not> is_digit c"

definition split_fraction :: "string \<Rightarrow> string option \<times> string" where
  "split_fraction s = (case s of
     c # r \<Rightarrow> if c = CHR ''.'' then (Some (takeWhile is_digit r), dropWhile is_digit r) else (None, s)
   | [] \<Rightarrow> (None, []))"

lemma split_fraction_length: "length (snd (split_fraction s)) \<le> length s"
  by (auto simp: split_fraction_def le_SucI length_dropWhile_le split: list.split)

lemma parse_units_shorter:
  assumes "(fs, s2) = split_fraction (dropWhile is_digit s)" "takeWhile unit_char s2 \<noteq> []"
  shows "length (dropWhile unit_char s2) < length s"
proof -
  have "length s2 \<le> length (dropWhile is_digit s)"
    using split_fraction_length [of "dropWhile is_digit s"] assms(1) by (metis snd_conv)
  also have "\<dots> \<le> length s" by (rule length_dropWhile_le)
  finally have "length s2 \<le> length s" .
  moreover have "length s2 = length (takeWhile unit_char s2) + length (dropWhile unit_char s2)"
    by (metis length_append takeWhile_dropWhile_id)
  moreover have "0 < length (takeWhile unit_char s2)" using assms(2) by simp
  ultimately show ?thesis by linarith
qed

text \<open>The sum is kept in 64 bits, as the code's \<open>uint64\<close>.\<close>

function parse_units :: "string \<Rightarrow> nat \<Rightarrow> nat option" where
  "parse_units s d =
     (if s = [] then Some d
      else let ds = takeWhile is_digit s;
               (fs, s2) = split_fraction (dropWhile is_digit s);
               u = takeWhile unit_char s2;
               s3 = dropWhile unit_char s2
           in if unit_char (hd s) \<or> digits_val ds > 2 ^ 63 \<or> ds = [] \<and> (fs = None \<or> fs = Some [])
                 \<or> u = [] then None
              else (case map_of duration_units u of
                None \<Rightarrow> None
              | Some unit \<Rightarrow>
                  if digits_val ds > 2 ^ 63 div unit then None
                  else let v = digits_val ds * unit
                         + fraction_ns (case fs of None \<Rightarrow> (0, 0) | Some f \<Rightarrow> leading_fraction 0 0 f) unit
                       in if v > 2 ^ 63 \<or> (d + v) mod 2 ^ 64 > 2 ^ 63 then None
                          else parse_units s3 ((d + v) mod 2 ^ 64)))"
  by pat_completeness auto

termination
  by (relation "measure (length \<circ> fst)") (auto simp: parse_units_shorter)

declare parse_units.simps [simp del]

definition parse_duration :: "string \<Rightarrow> duration option" where
  "parse_duration s =
     (let (neg, body) = (case s of
            c # r \<Rightarrow> if c = CHR ''-'' then (True, r) else if c = CHR ''+'' then (False, r) else (False, s)
          | [] \<Rightarrow> (False, []))
      in if body = ''0'' then Some 0
         else if body = [] then None
         else (case parse_units body 0 of
           None \<Rightarrow> None
         | Some d \<Rightarrow> if neg then Some (- int d)
                      else if d > 2 ^ 63 - 1 then None else Some (int d)))"

end
