(* ===== verification/AppConfig.thy ===== *)
theory AppConfig
  imports GoNumbers HassConfig
begin

text \<open>
  \<open>internal/config/config.go\<close>: the configuration of the program. The variables are a datatype,
  each with its type and its access to the record; the environment and the command line are tables
  from names to variables, in the order of the code. \<open>Parse\<close> starts from the defaults, then reads
  the environment, then the command line with the rules of the \<open>flag\<close> package, then validates.

  Lemmas: for every variable the last flag wins over the environment, which wins over the default;
  what \<open>Parse\<close> accepts is valid.
\<close>

section \<open>Configuration\<close>

record app_config =
  ac_busybar_host :: string
  ac_busybar_port :: int
  ac_busybar_device_id :: string
  ac_hass_url :: string
  ac_hass_token :: string
  ac_hass_event_type :: string
  ac_hass_timeout :: duration
  ac_forward_state_events :: bool
  ac_port :: int
  ac_shutdown_timeout :: duration
  ac_log_level :: string
  ac_google_client_id :: string
  ac_google_client_secret :: string
  ac_google_redirect_url :: string
  ac_calendar_store_path :: string
  ac_enable_outbound_push :: bool
  ac_busybar_api_key :: string
  ac_push_timeout :: duration
  ac_enable_calendar_sync :: bool
  ac_calendar_poll_interval :: duration

definition app_default_config :: app_config where
  "app_default_config = \<lparr>ac_busybar_host = ''192.168.68.196'',
     ac_busybar_port = 80,
     ac_busybar_device_id = ''busybar'',
     ac_hass_url = ''http://homeassistant.local:8123'',
     ac_hass_token = '''',
     ac_hass_event_type = ''busybar_event'',
     ac_hass_timeout = 5 * second,
     ac_forward_state_events = False,
     ac_port = 8080,
     ac_shutdown_timeout = 10 * second,
     ac_log_level = ''info'',
     ac_google_client_id = '''',
     ac_google_client_secret = '''',
     ac_google_redirect_url = ''http://localhost:8080/oauth/google/callback'',
     ac_calendar_store_path = ''/data/calendar_binding.pb'',
     ac_enable_outbound_push = False,
     ac_busybar_api_key = '''',
     ac_push_timeout = 3 * second,
     ac_enable_calendar_sync = False,
     ac_calendar_poll_interval = 1 * minute\<rparr>"

definition is_oauth_configured :: "app_config \<Rightarrow> bool" where
  "is_oauth_configured c \<longleftrightarrow> \<not> blank (ac_google_client_id c) \<and> \<not> blank (ac_google_client_secret c)"

datatype config_error = ErrMissingHassToken | ErrInvalidHassURL string | ErrInvalidGoogleRedirectURL string
  | ErrInvalidPort int | ErrInvalidBusyBarPort int | ErrInvalidHassTimeout | ErrInvalidShutdownTimeout
  | ErrInvalidPushTimeout | ErrInvalidCalendarPollInterval
  | InvalidEnv string | FlagHelp | FlagBadSyntax string | FlagUndefined string | FlagNeedsArgument string
  | FlagInvalidValue string string

definition app_validate :: "uri_parser \<Rightarrow> app_config \<Rightarrow> config_error option" where
  "app_validate uri c =
     (if blank (ac_hass_token c) then Some ErrMissingHassToken
      else if blank (ac_hass_url c) then Some (ErrInvalidHassURL ''empty URL'')
      else (case check_http_url uri (ac_hass_url c) of
        Some d \<Rightarrow> Some (ErrInvalidHassURL d)
      | None \<Rightarrow> (case (if blank (ac_google_redirect_url c) then None
                      else check_http_url uri (ac_google_redirect_url c)) of
          Some d \<Rightarrow> Some (ErrInvalidGoogleRedirectURL d)
        | None \<Rightarrow>
            if ac_port c < 1 \<or> ac_port c > 65535 then Some (ErrInvalidPort (ac_port c))
            else if ac_busybar_port c < 1 \<or> ac_busybar_port c > 65535
              then Some (ErrInvalidBusyBarPort (ac_busybar_port c))
            else if ac_hass_timeout c \<le> 0 then Some ErrInvalidHassTimeout
            else if ac_shutdown_timeout c \<le> 0 then Some ErrInvalidShutdownTimeout
            else if ac_push_timeout c \<le> 0 then Some ErrInvalidPushTimeout
            else if ac_calendar_poll_interval c \<le> 0 then Some ErrInvalidCalendarPollInterval
            else None)))"

section \<open>Variables\<close>

datatype config_var =
    BusyBarHost | BusyBarPort | BusyBarDeviceID | HassURL | HassToken
  | HassEventType | HassTimeout | ForwardStateEvents | Port | ShutdownTimeout
  | LogLevel | GoogleClientID | GoogleClientSecret | GoogleRedirectURL | CalendarStorePath
  | EnableOutboundPush | BusyBarAPIKey | PushTimeout | EnableCalendarSync | CalendarPollInterval

datatype var_type = TStr | TInt | TBool | TDuration

datatype config_value = VStr string | VInt int | VBool bool | VDuration duration

fun type_of_var :: "config_var \<Rightarrow> var_type" where
  "type_of_var BusyBarHost = TStr"
| "type_of_var BusyBarPort = TInt"
| "type_of_var BusyBarDeviceID = TStr"
| "type_of_var HassURL = TStr"
| "type_of_var HassToken = TStr"
| "type_of_var HassEventType = TStr"
| "type_of_var HassTimeout = TDuration"
| "type_of_var ForwardStateEvents = TBool"
| "type_of_var Port = TInt"
| "type_of_var ShutdownTimeout = TDuration"
| "type_of_var LogLevel = TStr"
| "type_of_var GoogleClientID = TStr"
| "type_of_var GoogleClientSecret = TStr"
| "type_of_var GoogleRedirectURL = TStr"
| "type_of_var CalendarStorePath = TStr"
| "type_of_var EnableOutboundPush = TBool"
| "type_of_var BusyBarAPIKey = TStr"
| "type_of_var PushTimeout = TDuration"
| "type_of_var EnableCalendarSync = TBool"
| "type_of_var CalendarPollInterval = TDuration"

fun get_var :: "config_var \<Rightarrow> app_config \<Rightarrow> config_value" where
  "get_var BusyBarHost c = VStr (ac_busybar_host c)"
| "get_var BusyBarPort c = VInt (ac_busybar_port c)"
| "get_var BusyBarDeviceID c = VStr (ac_busybar_device_id c)"
| "get_var HassURL c = VStr (ac_hass_url c)"
| "get_var HassToken c = VStr (ac_hass_token c)"
| "get_var HassEventType c = VStr (ac_hass_event_type c)"
| "get_var HassTimeout c = VDuration (ac_hass_timeout c)"
| "get_var ForwardStateEvents c = VBool (ac_forward_state_events c)"
| "get_var Port c = VInt (ac_port c)"
| "get_var ShutdownTimeout c = VDuration (ac_shutdown_timeout c)"
| "get_var LogLevel c = VStr (ac_log_level c)"
| "get_var GoogleClientID c = VStr (ac_google_client_id c)"
| "get_var GoogleClientSecret c = VStr (ac_google_client_secret c)"
| "get_var GoogleRedirectURL c = VStr (ac_google_redirect_url c)"
| "get_var CalendarStorePath c = VStr (ac_calendar_store_path c)"
| "get_var EnableOutboundPush c = VBool (ac_enable_outbound_push c)"
| "get_var BusyBarAPIKey c = VStr (ac_busybar_api_key c)"
| "get_var PushTimeout c = VDuration (ac_push_timeout c)"
| "get_var EnableCalendarSync c = VBool (ac_enable_calendar_sync c)"
| "get_var CalendarPollInterval c = VDuration (ac_calendar_poll_interval c)"

fun set_var :: "config_var \<Rightarrow> config_value \<Rightarrow> app_config \<Rightarrow> app_config" where
  "set_var BusyBarHost (VStr x) c = c\<lparr>ac_busybar_host := x\<rparr>"
| "set_var BusyBarPort (VInt x) c = c\<lparr>ac_busybar_port := x\<rparr>"
| "set_var BusyBarDeviceID (VStr x) c = c\<lparr>ac_busybar_device_id := x\<rparr>"
| "set_var HassURL (VStr x) c = c\<lparr>ac_hass_url := x\<rparr>"
| "set_var HassToken (VStr x) c = c\<lparr>ac_hass_token := x\<rparr>"
| "set_var HassEventType (VStr x) c = c\<lparr>ac_hass_event_type := x\<rparr>"
| "set_var HassTimeout (VDuration x) c = c\<lparr>ac_hass_timeout := x\<rparr>"
| "set_var ForwardStateEvents (VBool x) c = c\<lparr>ac_forward_state_events := x\<rparr>"
| "set_var Port (VInt x) c = c\<lparr>ac_port := x\<rparr>"
| "set_var ShutdownTimeout (VDuration x) c = c\<lparr>ac_shutdown_timeout := x\<rparr>"
| "set_var LogLevel (VStr x) c = c\<lparr>ac_log_level := x\<rparr>"
| "set_var GoogleClientID (VStr x) c = c\<lparr>ac_google_client_id := x\<rparr>"
| "set_var GoogleClientSecret (VStr x) c = c\<lparr>ac_google_client_secret := x\<rparr>"
| "set_var GoogleRedirectURL (VStr x) c = c\<lparr>ac_google_redirect_url := x\<rparr>"
| "set_var CalendarStorePath (VStr x) c = c\<lparr>ac_calendar_store_path := x\<rparr>"
| "set_var EnableOutboundPush (VBool x) c = c\<lparr>ac_enable_outbound_push := x\<rparr>"
| "set_var BusyBarAPIKey (VStr x) c = c\<lparr>ac_busybar_api_key := x\<rparr>"
| "set_var PushTimeout (VDuration x) c = c\<lparr>ac_push_timeout := x\<rparr>"
| "set_var EnableCalendarSync (VBool x) c = c\<lparr>ac_enable_calendar_sync := x\<rparr>"
| "set_var CalendarPollInterval (VDuration x) c = c\<lparr>ac_calendar_poll_interval := x\<rparr>"
| "set_var _ _ c = c"

definition env_table :: "(string \<times> config_var) list" where
  "env_table =
    [(''BUSYBAR_HOST'', BusyBarHost), (''BUSYBAR_PORT'', BusyBarPort),
     (''BUSYBAR_DEVICE_ID'', BusyBarDeviceID), (''HASS_URL'', HassURL), (''HASS_TOKEN'', HassToken),
     (''HASS_EVENT_TYPE'', HassEventType), (''HASS_TIMEOUT'', HassTimeout),
     (''FORWARD_STATE_EVENTS'', ForwardStateEvents), (''PORT'', Port),
     (''SHUTDOWN_TIMEOUT'', ShutdownTimeout), (''LOG_LEVEL'', LogLevel),
     (''GOOGLE_CLIENT_ID'', GoogleClientID), (''GOOGLE_CLIENT_SECRET'', GoogleClientSecret),
     (''GOOGLE_REDIRECT_URL'', GoogleRedirectURL), (''CALENDAR_STORE_PATH'', CalendarStorePath),
     (''ENABLE_OUTBOUND_PUSH'', EnableOutboundPush), (''BUSYBAR_API_KEY'', BusyBarAPIKey),
     (''PUSH_TIMEOUT'', PushTimeout), (''ENABLE_CALENDAR_SYNC'', EnableCalendarSync),
     (''CALENDAR_POLL_INTERVAL'', CalendarPollInterval)]"

definition flag_table :: "(string \<times> config_var) list" where
  "flag_table =
    [(''busybar-host'', BusyBarHost), (''busybar_host'', BusyBarHost),
     (''busybar-port'', BusyBarPort), (''busybar_port'', BusyBarPort),
     (''busybar-device-id'', BusyBarDeviceID), (''busybar_device_id'', BusyBarDeviceID),
     (''hass-url'', HassURL), (''hass_url'', HassURL), (''hass-token'', HassToken),
     (''hass_token'', HassToken), (''hass-event-type'', HassEventType),
     (''hass_event_type'', HassEventType), (''hass-timeout'', HassTimeout),
     (''hass_timeout'', HassTimeout), (''forward-state-events'', ForwardStateEvents),
     (''forward_state_events'', ForwardStateEvents), (''port'', Port),
     (''shutdown-timeout'', ShutdownTimeout), (''shutdown_timeout'', ShutdownTimeout),
     (''log-level'', LogLevel), (''log_level'', LogLevel), (''google-client-id'', GoogleClientID),
     (''google_client_id'', GoogleClientID), (''google-client-secret'', GoogleClientSecret),
     (''google_client_secret'', GoogleClientSecret), (''google-redirect-url'', GoogleRedirectURL),
     (''google_redirect_url'', GoogleRedirectURL), (''calendar-store-path'', CalendarStorePath),
     (''calendar_store_path'', CalendarStorePath), (''enable-outbound-push'', EnableOutboundPush),
     (''enable_outbound_push'', EnableOutboundPush), (''busybar-api-key'', BusyBarAPIKey),
     (''busybar_api_key'', BusyBarAPIKey), (''push-timeout'', PushTimeout),
     (''push_timeout'', PushTimeout), (''enable-calendar-sync'', EnableCalendarSync),
     (''enable_calendar_sync'', EnableCalendarSync),
     (''calendar-poll-interval'', CalendarPollInterval),
     (''calendar_poll_interval'', CalendarPollInterval)]"


section \<open>The environment\<close>

definition env_value :: "var_type \<Rightarrow> string \<Rightarrow> config_value option" where
  "env_value t s = (case t of
     TStr \<Rightarrow> Some (VStr s)
   | TInt \<Rightarrow> map_option VInt (parse_int s)
   | TBool \<Rightarrow> map_option VBool (parse_bool s)
   | TDuration \<Rightarrow> map_option VDuration (parse_duration s))"

text \<open>\<open>getenv\<close> answers the empty string for a variable that is not set.\<close>

fun load_env :: "(string \<Rightarrow> string) \<Rightarrow> (string \<times> config_var) list \<Rightarrow> app_config \<Rightarrow> config_error + app_config" where
  "load_env getenv [] c = Inr c"
| "load_env getenv ((name, x) # vs) c =
     (if getenv name = '''' then load_env getenv vs c
      else (case env_value (type_of_var x) (getenv name) of
        None \<Rightarrow> Inl (InvalidEnv name)
      | Some v \<Rightarrow> load_env getenv vs (set_var x v c)))"

section \<open>The command line\<close>

text \<open>The first argument as \<open>FlagSet.parseOne\<close> reads it.\<close>

datatype flag_token = FlagStop | FlagBad | FlagNamed string "string option"

definition read_flag :: "string \<Rightarrow> flag_token" where
  "read_flag s =
     (if length s < 2 \<or> hd s \<noteq> CHR ''-'' \<or> s = ''--'' then FlagStop
      else let name = (if s ! 1 = CHR ''-'' then drop 2 s else drop 1 s)
           in if name = '''' \<or> hd name = CHR ''-'' \<or> hd name = CHR ''='' then FlagBad
              else if CHR ''='' \<in> set name
              then FlagNamed (takeWhile (\<lambda>c. c \<noteq> CHR ''='') name)
                     (Some (tl (dropWhile (\<lambda>c. c \<noteq> CHR ''='') name)))
              else FlagNamed name None)"

definition flag_value :: "var_type \<Rightarrow> string \<Rightarrow> config_value option" where
  "flag_value t s = (case t of
     TStr \<Rightarrow> Some (VStr s)
   | TInt \<Rightarrow> map_option VInt (parse_int0 s)
   | TBool \<Rightarrow> map_option VBool (parse_bool s)
   | TDuration \<Rightarrow> map_option VDuration (parse_duration s))"

text \<open>
  One flag: the variable, its value, and the arguments left. A boolean flag takes only a value
  attached to it, any other flag takes the next argument when it has none.
\<close>

definition flag_setting :: "string \<Rightarrow> string option \<Rightarrow> string list
    \<Rightarrow> config_error + (config_var \<times> config_value) \<times> string list" where
  "flag_setting name attached rest =
     (case map_of flag_table name of
        None \<Rightarrow> Inl (if name = ''help'' \<or> name = ''h'' then FlagHelp else FlagUndefined name)
      | Some x \<Rightarrow>
         (let taken = (if type_of_var x = TBool then Some (case attached of Some v \<Rightarrow> v | None \<Rightarrow> ''true'', rest)
                       else (case attached of Some v \<Rightarrow> Some (v, rest)
                             | None \<Rightarrow> (case rest of [] \<Rightarrow> None | v # rest' \<Rightarrow> Some (v, rest'))))
          in (case taken of
                None \<Rightarrow> Inl (FlagNeedsArgument name)
              | Some (v, rest') \<Rightarrow> (case flag_value (type_of_var x) v of
                  None \<Rightarrow> Inl (FlagInvalidValue name v)
                | Some val \<Rightarrow> Inr ((x, val), rest')))))"

lemma flag_setting_rest:
  "flag_setting name attached rest = Inr (xv, rest') \<Longrightarrow> length rest' \<le> length rest"
  by (auto simp: flag_setting_def Let_def split: option.splits if_splits list.splits)

function parse_flags :: "string list \<Rightarrow> app_config \<Rightarrow> config_error + app_config" where
  "parse_flags args c = (case args of
     [] \<Rightarrow> Inr c
   | s # rest \<Rightarrow> (case read_flag s of
       FlagStop \<Rightarrow> Inr c
     | FlagBad \<Rightarrow> Inl (FlagBadSyntax s)
     | FlagNamed name attached \<Rightarrow> (case flag_setting name attached rest of
         Inl err \<Rightarrow> Inl err
       | Inr ((x, v), rest') \<Rightarrow> parse_flags rest' (set_var x v c))))"
  by pat_completeness auto

termination
  by (relation "measure (length \<circ> fst)") (auto dest!: flag_setting_rest)

declare parse_flags.simps [simp del]

section \<open>Parse\<close>

definition parse_app_config :: "uri_parser \<Rightarrow> (string \<Rightarrow> string) \<Rightarrow> string list \<Rightarrow> config_error + app_config" where
  "parse_app_config uri getenv args =
     (case load_env getenv env_table app_default_config of
        Inl err \<Rightarrow> Inl err
      | Inr c1 \<Rightarrow> (case parse_flags args c1 of
          Inl err \<Rightarrow> Inl err
        | Inr c2 \<Rightarrow> (case app_validate uri c2 of Some err \<Rightarrow> Inl err | None \<Rightarrow> Inr c2)))"

section \<open>Precedence\<close>

text \<open>A value of the variable's type is stored, and no other variable changes.\<close>

fun value_type :: "config_value \<Rightarrow> var_type" where
  "value_type (VStr _) = TStr"
| "value_type (VInt _) = TInt"
| "value_type (VBool _) = TBool"
| "value_type (VDuration _) = TDuration"

lemma get_set_same: "value_type v = type_of_var x \<Longrightarrow> get_var x (set_var x v c) = v"
  by (cases x; cases v; simp)

lemma get_set_other: "x \<noteq> y \<Longrightarrow> get_var x (set_var y v c) = get_var x c"
  by (cases y; cases v; simp; cases x; simp)

lemma env_value_type: "env_value t s = Some v \<Longrightarrow> value_type v = t"
  by (auto simp: env_value_def split: var_type.splits)

lemma flag_value_type: "flag_value t s = Some v \<Longrightarrow> value_type v = t"
  by (auto simp: flag_value_def split: var_type.splits)

lemma flag_setting_type: "flag_setting name attached rest = Inr ((x, v), rest') \<Longrightarrow> value_type v = type_of_var x"
  by (auto simp: flag_setting_def Let_def intro: flag_value_type split: option.splits if_splits list.splits)

text \<open>
  The settings of a command line, in order: the specification of the flag parser, which reads no
  configuration.
\<close>

function flag_settings :: "string list \<Rightarrow> (config_var \<times> config_value) list" where
  "flag_settings args = (case args of
     [] \<Rightarrow> []
   | s # rest \<Rightarrow> (case read_flag s of
       FlagNamed name attached \<Rightarrow> (case flag_setting name attached rest of
         Inl err \<Rightarrow> []
       | Inr (xv, rest') \<Rightarrow> xv # flag_settings rest')
     | _ \<Rightarrow> []))"
  by pat_completeness auto

termination
  by (relation "measure length") (auto dest!: flag_setting_rest)

declare flag_settings.simps [simp del]

text \<open>What a variable is set to: by the last flag, else by the environment, else by default.\<close>

definition last_flag :: "string list \<Rightarrow> config_var \<Rightarrow> config_value option" where
  "last_flag args x = map_of (rev (flag_settings args)) x"

definition env_setting :: "(string \<Rightarrow> string) \<Rightarrow> config_var \<Rightarrow> config_value option" where
  "env_setting getenv x =
     (case map_of (map (\<lambda>(n, y). (y, n)) env_table) x of
        None \<Rightarrow> None
      | Some name \<Rightarrow> if getenv name = '''' then None else env_value (type_of_var x) (getenv name))"

lemma load_env_step:
  assumes "load_env getenv ((n, y) # vs) c = Inr c'"
  obtains "getenv n = []" "load_env getenv vs c = Inr c'"
  | v where "getenv n \<noteq> []" "env_value (type_of_var y) (getenv n) = Some v"
      "load_env getenv vs (set_var y v c) = Inr c'"
  using assms by (auto split: if_splits option.splits)

lemma load_env_get:
  assumes "load_env getenv vs c = Inr c'" "distinct (map snd vs)"
  shows "get_var x c' = (case map_of (map (\<lambda>(n, y). (y, n)) vs) x of
      None \<Rightarrow> get_var x c
    | Some name \<Rightarrow> if getenv name = [] then get_var x c
        else (case env_value (type_of_var x) (getenv name) of Some v \<Rightarrow> v | None \<Rightarrow> get_var x c))"
  using assms
proof (induction vs arbitrary: c)
  case (Cons a vs)
  obtain n y where a: "a = (n, y)" by (cases a)
  have fresh: "map_of (map (\<lambda>(n, y). (y, n)) vs) y = None"
    using Cons(3) a by (force simp: map_of_eq_None_iff)
  note IH = Cons(1) [OF _ conjunct2 [OF Cons(3) [unfolded list.map distinct.simps]]]
  from Cons(2) [unfolded a] show ?case
  proof (cases rule: load_env_step)
    case 1
    then show ?thesis using IH [OF 1(2)] fresh a by (cases "x = y") auto
  next
    case (2 v)
    then show ?thesis using IH [OF 2(3)] fresh a env_value_type [OF 2(2)]
      by (cases "x = y") (auto simp: get_set_same get_set_other split: option.split)
  qed
qed simp

lemma last_flag_Cons:
  "map_of (rev (xv # l)) x = (case map_of (rev l) x of Some v \<Rightarrow> Some v
     | None \<Rightarrow> if x = fst xv then Some (snd xv) else None)"
  by (cases xv) (auto simp: map_of_append map_add_def split: option.split)

lemma parse_flags_get:
  assumes "parse_flags args c = Inr c'"
  shows "get_var x c' = (case last_flag args x of Some v \<Rightarrow> v | None \<Rightarrow> get_var x c)"
  using assms
proof (induction args c rule: parse_flags.induct)
  case (1 args c)
  show ?case
  proof (cases args)
    case Nil
    then show ?thesis using 1(2) by (simp add: last_flag_def parse_flags.simps flag_settings.simps)
  next
    case (Cons s rest)
    show ?thesis
    proof (cases "read_flag s")
      case (FlagNamed name attached)
      then obtain y v rest' where f: "flag_setting name attached rest = Inr ((y, v), rest')"
          "parse_flags rest' (set_var y v c) = Inr c'"
        using 1(2) Cons by (auto simp: parse_flags.simps [of "s # rest"] split: sum.splits)
      have IH: "get_var x c' = (case last_flag rest' x of Some v \<Rightarrow> v | None \<Rightarrow> get_var x (set_var y v c))"
        by (rule 1(1) [OF Cons FlagNamed f(1) refl refl f(2)])
      have "flag_settings args = (y, v) # flag_settings rest'"
        using Cons FlagNamed f(1) by (simp add: flag_settings.simps [of "s # rest"])
      then show ?thesis using IH flag_setting_type [OF f(1)]
        by (auto simp: last_flag_def last_flag_Cons get_set_same get_set_other simp del: rev.simps
            split: option.splits)
    qed (use 1(2) Cons in \<open>simp_all add: last_flag_def parse_flags.simps flag_settings.simps\<close>)
  qed
qed

lemma app_validate_None:
  "app_validate uri c = None \<longleftrightarrow> \<not> blank (ac_hass_token c) \<and> \<not> blank (ac_hass_url c)
     \<and> check_http_url uri (ac_hass_url c) = None
     \<and> (blank (ac_google_redirect_url c) \<or> check_http_url uri (ac_google_redirect_url c) = None)
     \<and> 1 \<le> ac_port c \<and> ac_port c \<le> 65535 \<and> 1 \<le> ac_busybar_port c \<and> ac_busybar_port c \<le> 65535
     \<and> 0 < ac_hass_timeout c \<and> 0 < ac_shutdown_timeout c \<and> 0 < ac_push_timeout c
     \<and> 0 < ac_calendar_poll_interval c"
  by (auto simp: app_validate_def split: option.split)

text \<open>
  C13: the command line wins over the environment, which wins over the defaults, for every variable,
  and whatever is returned is valid. A variable has the value of the last flag that sets it,
  under either of its names; without one, that of its environment variable if this is not empty;
  else its default. The ports are real ports, the timeouts positive, the token is not blank.
\<close>

theorem flags_over_env_over_defaults:
  assumes "parse_app_config uri getenv args = Inr cfg"
  shows "get_var x cfg = (case last_flag args x of
        Some v \<Rightarrow> v
      | None \<Rightarrow> (case env_setting getenv x of Some v \<Rightarrow> v | None \<Rightarrow> get_var x app_default_config))
    \<and> \<not> blank (ac_hass_token cfg) \<and> 1 \<le> ac_port cfg \<and> ac_port cfg \<le> 65535
    \<and> 1 \<le> ac_busybar_port cfg \<and> ac_busybar_port cfg \<le> 65535 \<and> 0 < ac_hass_timeout cfg
    \<and> 0 < ac_shutdown_timeout cfg \<and> 0 < ac_push_timeout cfg \<and> 0 < ac_calendar_poll_interval cfg
    \<and> (\<exists>host. host \<noteq> [] \<and> (uri (ac_hass_url cfg) = Inr (''http'', host) \<or> uri (ac_hass_url cfg) = Inr (''https'', host)))"
proof -
  obtain c1 where c: "load_env getenv env_table app_default_config = Inr c1" "parse_flags args c1 = Inr cfg"
      "app_validate uri cfg = None"
    using assms by (auto simp: parse_app_config_def split: sum.splits option.splits)
  have "distinct (map snd env_table)" by (simp add: env_table_def)
  from load_env_get [OF c(1) this, of x]
  have "get_var x c1 = (case env_setting getenv x of Some v \<Rightarrow> v | None \<Rightarrow> get_var x app_default_config)"
    by (auto simp: env_setting_def split: option.splits)
  with parse_flags_get [OF c(2), of x] c(3) show ?thesis
    by (cases "last_flag args x") (simp_all add: app_validate_None check_http_url_None)
qed

definition demo_env_vars :: "string \<Rightarrow> string" where
  "demo_env_vars n = (if n = ''HASS_TOKEN'' then ''secret'' else if n = ''PORT'' then ''9000''
     else if n = ''BUSYBAR_PORT'' then ''81'' else [])"

definition demo_args :: "string list" where
  "demo_args = [''--port=9001'', ''-busybar_host'', ''bar.local'', ''--port'', ''0x2329'']"

lemmas parse_int_eval = parse_int_def digits_val_def is_digit_def in_int64_def min_int64_def max_int64_def

lemma demo_env_loads:
  "load_env demo_env_vars env_table app_default_config = Inr (app_default_config
     \<lparr>ac_busybar_port := 81, ac_hass_token := ''secret'', ac_port := 9000\<rparr>)"
proof -
  have "parse_int ''9000'' = Some 9000" "parse_int ''81'' = Some 81"
    by (simp_all add: parse_int_eval)
  then show ?thesis by (simp add: env_table_def demo_env_vars_def env_value_def)
qed

lemma demo_flags:
  "parse_flags demo_args c = Inr (c\<lparr>ac_port := 9001, ac_busybar_host := ''bar.local''\<rparr>)"
  "last_flag demo_args Port = Some (VInt 9001)"
proof -
  have i: "parse_int0 ''9001'' = Some 9001" "parse_int0 ''0x2329'' = Some 9001"
    by (simp_all add: parse_int0_def parse_uint0_def base_prefix_def any_digit_def is_digit_def go_arith)
  have t: "read_flag ''--port=9001'' = FlagNamed ''port'' (Some ''9001'')"
      "read_flag ''-busybar_host'' = FlagNamed ''busybar_host'' None" "read_flag ''--port'' = FlagNamed ''port'' None"
    by (simp_all add: read_flag_def)
  have f: "flag_setting ''port'' (Some ''9001'') r = Inr ((Port, VInt 9001), r)"
      "flag_setting ''busybar_host'' None (h # r) = Inr ((BusyBarHost, VStr h), r)"
      "flag_setting ''port'' None (''0x2329'' # r) = Inr ((Port, VInt 9001), r)" for r h
    by (simp_all add: flag_setting_def flag_table_def flag_value_def i)
  show "parse_flags demo_args c = Inr (c\<lparr>ac_port := 9001, ac_busybar_host := ''bar.local''\<rparr>)"
    by (simp add: demo_args_def parse_flags.simps t f)
  show "last_flag demo_args Port = Some (VInt 9001)"
    by (simp add: last_flag_def demo_args_def flag_settings.simps t f)
qed

lemma flags_over_env_over_defaults_witness:
  "\<exists>cfg. parse_app_config (\<lambda>_. Inr (''http'', ''h'')) demo_env_vars demo_args = Inr cfg
     \<and> get_var Port cfg = VInt 9001 \<and> get_var BusyBarPort cfg = VInt 81"
proof -
  let ?cfg = "app_default_config\<lparr>ac_busybar_port := 81, ac_hass_token := ''secret'', ac_port := 9001,
    ac_busybar_host := ''bar.local''\<rparr>"
  have "app_validate (\<lambda>_. Inr (''http'', ''h'')) ?cfg = None"
    by (simp add: app_validate_None check_http_url_None app_default_config_def go_arith not_blank_Cons is_space_def)
  then have "parse_app_config (\<lambda>_. Inr (''http'', ''h'')) demo_env_vars demo_args = Inr ?cfg"
    by (simp add: parse_app_config_def demo_env_loads demo_flags)
  from flags_over_env_over_defaults [OF this, of Port] this demo_flags(2) show ?thesis by simp
qed

end
