(* ===== verification/GoHttp.thy ===== *)
theory GoHttp
  imports GoStrings
begin

text \<open>
  What the server uses of \<open>net/http\<close> and \<open>net/url\<close>: requests with their raw query, cookies and
  \<open>Accept\<close> header, query parsing, and the three ways a handler answers. The cookies of a request are
  the parsed pairs. Lemma: \<open>url.QueryEscape\<close> is undone by the query parser.
\<close>

section \<open>Queries\<close>

definition hex_value :: "char \<Rightarrow> nat option" where
  "hex_value c = (if is_digit c then Some (byte c - 48)
     else if 65 \<le> byte c \<and> byte c \<le> 70 then Some (byte c - 55)
     else if 97 \<le> byte c \<and> byte c \<le> 102 then Some (byte c - 87) else None)"

fun query_unescape :: "string \<Rightarrow> string option" where
  "query_unescape [] = Some []"
| "query_unescape (c # cs) =
     (if c = CHR ''%'' then
        (case cs of
           a # b # r \<Rightarrow> (case (hex_value a, hex_value b) of
               (Some m, Some n) \<Rightarrow> map_option (Cons (char_of (m * 16 + n))) (query_unescape r)
             | _ \<Rightarrow> None)
         | _ \<Rightarrow> None)
      else map_option (Cons (if c = CHR ''+'' then CHR '' '' else c)) (query_unescape cs))"

fun split_char :: "char \<Rightarrow> string \<Rightarrow> string list" where
  "split_char d [] = [[]]"
| "split_char d (c # cs) =
     (if c = d then [] # split_char d cs
      else (case split_char d cs of p # ps \<Rightarrow> (c # p) # ps | [] \<Rightarrow> [[c]]))"

text \<open>\<open>strings.Cut\<close>; the last component tells whether the separator was found.\<close>

definition cut_char :: "char \<Rightarrow> string \<Rightarrow> string \<times> string \<times> bool" where
  "cut_char d s = (takeWhile (\<lambda>c. c \<noteq> d) s, drop (Suc (length (takeWhile (\<lambda>c. c \<noteq> d) s))) s, d \<in> set s)"

text \<open>One setting of the query; \<open>None\<close> is one the parser skips.\<close>

definition query_pair :: "string \<Rightarrow> (string \<times> string) option" where
  "query_pair s =
     (if s = '''' \<or> CHR '';'' \<in> set s then None
      else (case cut_char (CHR ''='') s of (k, v, _) \<Rightarrow>
        (case (query_unescape k, query_unescape v) of (Some k', Some v') \<Rightarrow> Some (k', v') | _ \<Rightarrow> None)))"

definition parse_query :: "string \<Rightarrow> (string \<times> string) list" where
  "parse_query s = List.map_filter query_pair (split_char (CHR ''&'') s)"

definition query_get :: "string \<Rightarrow> (string \<times> string) list \<Rightarrow> string" where
  "query_get k q = (case map_of q k of Some v \<Rightarrow> v | None \<Rightarrow> '''')"

section \<open>Requests and responses\<close>

record http_request =
  rq_method :: string
  rq_path :: string
  rq_query :: string
  rq_accept :: string
  rq_cookies :: "(string \<times> string) list"

record http_cookie =
  ck_name :: string
  ck_value :: string
  ck_path :: string
  ck_max_age :: int
  ck_expires :: gtime
  ck_http_only :: bool
  ck_same_site :: string

text \<open>\<open>RedirectNote\<close> is the short page \<open>http.Redirect\<close> writes, with a link to the target.\<close>

datatype 'd http_body = EmptyBody | TextBody string | RedirectNote string | JsonBody 'd | HtmlBody string

record 'd http_response =
  rp_status :: int
  rp_location :: "string option"
  rp_content_type :: "string option"
  rp_cookies :: "http_cookie list"
  rp_body :: "'d http_body"

definition get_or_head :: "http_request \<Rightarrow> bool" where
  "get_or_head r \<longleftrightarrow> rq_method r = ''GET'' \<or> rq_method r = ''HEAD''"

definition text_plain :: string where "text_plain = ''text/plain; charset=utf-8''"
definition text_html :: string where "text_html = ''text/html; charset=utf-8''"

text \<open>\<open>http.Error\<close> and \<open>http.Redirect\<close>; cookies set before them stay in the response.\<close>

definition http_error :: "http_cookie list \<Rightarrow> string \<Rightarrow> int \<Rightarrow> 'd http_response" where
  "http_error cookies msg code = \<lparr>rp_status = code, rp_location = None, rp_content_type = Some text_plain,
     rp_cookies = cookies, rp_body = TextBody (msg @ [CHR 0x0A])\<rparr>"

definition http_redirect :: "http_cookie list \<Rightarrow> http_request \<Rightarrow> string \<Rightarrow> int \<Rightarrow> 'd http_response" where
  "http_redirect cookies r url code = \<lparr>rp_status = code, rp_location = Some url,
     rp_content_type = (if get_or_head r then Some text_html else None), rp_cookies = cookies,
     rp_body = (if rq_method r = ''GET'' then RedirectNote url else EmptyBody)\<rparr>"

definition method_not_allowed :: "'d http_response" where
  "method_not_allowed = http_error [] ''Method Not Allowed'' 405"

text \<open>The request a browser makes when it follows a redirect within the server.\<close>

definition follow :: "(string \<times> string) list \<Rightarrow> string \<Rightarrow> http_request" where
  "follow cookies url = (case cut_char (CHR ''?'') url of (p, q, _) \<Rightarrow>
     \<lparr>rq_method = ''GET'', rq_path = p, rq_query = q, rq_accept = ''text/html'', rq_cookies = cookies\<rparr>)"

section \<open>Escaping is undone\<close>

lemma hex_value_digit: "n < 16 \<Longrightarrow> hex_value (hex_digit n) = Some n"
  by (auto simp: hex_value_def hex_digit_def is_digit_def)

lemma hex_digit_ordinary: "n < 16 \<Longrightarrow> is_unreserved (hex_digit n)"
  by (auto simp: hex_digit_def is_unreserved_def is_digit_def)

lemma unreserved_ordinary: "is_unreserved c \<Longrightarrow> c \<notin> set ''%+&;=?#''"
  by (auto simp: is_unreserved_def is_digit_def)

lemma query_escape_Cons:
  "query_escape (c # s) = (if is_unreserved c then [c] else if c = CHR '' '' then ''+'' else percent c) @ query_escape s"
  by (simp add: query_escape_def)

lemma byte_nibble: "byte c div 16 < 16"
proof -
  have "byte c < 16 * 16" by (cases c) (auto simp: of_char_def)
  then show ?thesis by (rule less_mult_imp_div_less)
qed

lemma query_unescape_escape [simp]: "query_unescape (query_escape s) = Some s"
proof (induction s)
  case (Cons c s)
  have "byte c div 16 < 16" by (rule byte_nibble)
  moreover have "char_of (byte c div 16 * 16 + byte c mod 16) = c" by simp
  ultimately show ?case using Cons unreserved_ordinary [of c]
    by (auto simp: query_escape_Cons percent_def hex_value_digit)
qed (simp add: query_escape_def)

lemma query_escape_chars: "c \<in> set (query_escape s) \<Longrightarrow> is_unreserved c \<or> c = CHR ''+'' \<or> c = CHR ''%''"
proof (induction s)
  case (Cons a s)
  have "byte a div 16 < 16" "byte a mod 16 < 16" using byte_nibble [of a] by simp_all
  then show ?case using Cons hex_digit_ordinary
    by (auto simp: query_escape_Cons percent_def split: if_splits)
qed (simp add: query_escape_def)

lemma query_escape_ordinary: "c \<in> set ''&;=?#'' \<Longrightarrow> c \<notin> set (query_escape s)"
  using query_escape_chars [of c s] unreserved_ordinary [of c] by auto

lemma split_char_none: "d \<notin> set s \<Longrightarrow> split_char d s = [s]"
  by (induction s) auto

lemma cut_char_found: "d \<notin> set a \<Longrightarrow> cut_char d (a @ d # b) = (a, b, True)"
  by (simp add: cut_char_def takeWhile_append)

lemma split_char_cut: "d \<notin> set a \<Longrightarrow> split_char d (a @ d # b) = a # split_char d b"
  by (induction a) auto

lemma query_pair_escaped:
  assumes "k \<noteq> ''''" "\<forall>c \<in> set k. is_unreserved c"
  shows "query_pair (k @ ''='' @ query_escape v) = Some (k, v)" "CHR ''&'' \<notin> set (k @ ''='' @ query_escape v)"
proof -
  have n: "c \<notin> set k" if "c \<in> set ''%+&;=?#''" for c using assms(2) unreserved_ordinary that by blast
  have e: "c \<notin> set (query_escape v)" if "c \<in> set ''&;=?#''" for c using query_escape_ordinary that by blast
  have "query_unescape k = Some k" using n
    by (induction k) auto
  moreover have "cut_char (CHR ''='') (k @ CHR ''='' # query_escape v) = (k, query_escape v, True)"
    using n by (intro cut_char_found) simp
  ultimately show "query_pair (k @ ''='' @ query_escape v) = Some (k, v)"
    using assms(1) n e by (simp add: query_pair_def)
  show "CHR ''&'' \<notin> set (k @ ''='' @ query_escape v)" using n e by simp
qed

lemma parse_query_single:
  assumes "k \<noteq> ''''" "\<forall>c \<in> set k. is_unreserved c"
  shows "parse_query (k @ ''='' @ query_escape v) = [(k, v)]"
  using query_pair_escaped [OF assms] by (simp add: parse_query_def split_char_none List.map_filter_simps)

lemma parse_query_more:
  assumes "k \<noteq> ''''" "\<forall>c \<in> set k. is_unreserved c"
  shows "parse_query ((k @ ''='' @ query_escape v) @ ''&'' @ rest) = (k, v) # parse_query rest"
  using query_pair_escaped(1) [OF assms] split_char_cut [OF query_pair_escaped(2) [OF assms]]
  by (simp add: parse_query_def List.map_filter_simps)

end
