(* ===== verification/Server.thy ===== *)
theory Server
  imports GoHttp Telemetry CalStore CalManager Display
begin

text \<open>
  \<open>internal/server/server.go\<close>: the handlers of the HTTP server. A handler is a function of the
  server, the request and what its environment answers; the OAuth callback is cut where it calls
  \<open>Save\<close>, because handlers run concurrently. \<open>None\<close> is a handler that panics. The template is a
  parameter of the status page, whose JSON body is the data it encodes. The multiplexer's own
  redirects of unclean paths happen before a handler and are not part of the model.

  Lemmas: however callbacks interleave, at most one links the calendar, and only with the state
  that its cookie holds; what a login hands out passes the check of the callback; every branch of
  the callback; the error of a redirect is what the status page shows.
\<close>

section \<open>Configuration\<close>

record server_config =
  sc_port :: int
  sc_read_timeout :: duration
  sc_write_timeout :: duration

definition server_default_config :: server_config where
  "server_default_config = \<lparr>sc_port = 8080, sc_read_timeout = 5 * second, sc_write_timeout = 10 * second\<rparr>"

text \<open>
  The tracker and the display are reached through interfaces: the server knows whether it has them,
  what they answer is in the environment of a request. \<open>ws_listener\<close> is the port of the open listener.
\<close>

record http_server =
  ws_cfg :: server_config
  ws_store :: "tstore option"
  ws_cal_store :: "cal_store option"
  ws_oauth :: "cal_manager option"
  ws_oauth_configured :: "bool option"
  ws_has_tracker :: bool
  ws_has_display :: bool
  ws_addr :: string
  ws_listener :: "int option"
  ws_has_template :: bool

record server_options =
  so_cal_store :: "cal_store option"
  so_oauth :: "cal_manager option"
  so_cal_manager :: "cal_manager option"
  so_oauth_configured :: "bool option"
  so_has_tracker :: bool
  so_has_display :: bool

definition with_server_options :: "server_options \<Rightarrow> http_server \<Rightarrow> http_server" where
  "with_server_options o1 s = s\<lparr>
     ws_cal_store := (if so_cal_store o1 \<noteq> None then so_cal_store o1 else ws_cal_store s),
     ws_oauth := (if so_oauth o1 \<noteq> None then so_oauth o1
       else if so_cal_manager o1 \<noteq> None then so_cal_manager o1 else ws_oauth s),
     ws_oauth_configured := (if so_oauth_configured o1 \<noteq> None then so_oauth_configured o1
       else ws_oauth_configured s),
     ws_has_tracker := (so_has_tracker o1 \<or> ws_has_tracker s),
     ws_has_display := (so_has_display o1 \<or> ws_has_display s)\<rparr>"

definition with_calendar_store :: "cal_store option \<Rightarrow> http_server \<Rightarrow> http_server" where
  "with_calendar_store st s = s\<lparr>ws_cal_store := st\<rparr>"

definition with_oauth_manager :: "cal_manager option \<Rightarrow> http_server \<Rightarrow> http_server" where
  "with_oauth_manager m s = s\<lparr>ws_oauth := m\<rparr>"

definition with_oauth_configured :: "bool \<Rightarrow> http_server \<Rightarrow> http_server" where
  "with_oauth_configured b s = s\<lparr>ws_oauth_configured := Some b\<rparr>"

definition with_event_tracker :: "bool \<Rightarrow> http_server \<Rightarrow> http_server" where
  "with_event_tracker b s = s\<lparr>ws_has_tracker := b\<rparr>"

definition with_display_provider :: "bool \<Rightarrow> http_server \<Rightarrow> http_server" where
  "with_display_provider b s = s\<lparr>ws_has_display := b\<rparr>"

definition listen_addr :: "int \<Rightarrow> string" where
  "listen_addr port = (if port < 0 then '':0'' else CHR '':'' # itoa port)"

text \<open>The options are applied in order, after the fields are set.\<close>

definition new_server :: "bool \<Rightarrow> server_config \<Rightarrow> tstore option \<Rightarrow> (http_server \<Rightarrow> http_server) list \<Rightarrow> http_server" where
  "new_server template_ok cfg store opts =
     (let c = \<lparr>sc_port = (if sc_port cfg = 0 then sc_port server_default_config else sc_port cfg),
               sc_read_timeout = (if sc_read_timeout cfg \<le> 0 then sc_read_timeout server_default_config
                                  else sc_read_timeout cfg),
               sc_write_timeout = (if sc_write_timeout cfg \<le> 0 then sc_write_timeout server_default_config
                                   else sc_write_timeout cfg)\<rparr>
      in fold (\<lambda>opt s. opt s) opts
           \<lparr>ws_cfg = c, ws_store = store, ws_cal_store = None, ws_oauth = None, ws_oauth_configured = None,
            ws_has_tracker = False, ws_has_display = False, ws_addr = listen_addr (sc_port c),
            ws_listener = None, ws_has_template = template_ok\<rparr>)"

text \<open>\<open>Start\<close>: the context's error, or what \<open>net.Listen\<close> answered, an error or a port.\<close>

definition server_start :: "string option \<Rightarrow> (string \<Rightarrow> string + int) \<Rightarrow> http_server \<Rightarrow> string option \<times> http_server" where
  "server_start ctx_err listen s = (case ctx_err of
     Some err \<Rightarrow> (Some err, s)
   | None \<Rightarrow>
      (let addr = (if ws_addr s = '''' then listen_addr (sc_port (ws_cfg s)) else ws_addr s);
           s1 = s\<lparr>ws_addr := addr\<rparr>
       in (case listen addr of
            Inl err \<Rightarrow> (Some (''failed to listen on '' @ addr @ '': '' @ err), s1)
          | Inr port \<Rightarrow> (None, s1\<lparr>ws_listener := Some port\<rparr>))))"

definition server_addr :: "http_server \<Rightarrow> string" where
  "server_addr s = (case ws_listener s of Some port \<Rightarrow> ''127.0.0.1:'' @ itoa port | None \<Rightarrow> ws_addr s)"

section \<open>Probes and status\<close>

definition server_oauth_configured :: "http_server \<Rightarrow> bool" where
  "server_oauth_configured s = (case ws_oauth_configured s of
     Some b \<Rightarrow> b
   | None \<Rightarrow> (case ws_oauth s of None \<Rightarrow> False | Some m \<Rightarrow> manager_configured (Some m)))"

record calendar_status =
  ca_configured :: bool
  ca_bound :: bool
  ca_email :: string
  ca_linked_at :: string
  ca_flash_error :: string
  ca_flash_success :: string

definition calendar_status_of :: "http_server \<Rightarrow> http_request option \<Rightarrow> calendar_status" where
  "calendar_status_of s r =
     (let q = (case r of None \<Rightarrow> [] | Some req \<Rightarrow> parse_query (rq_query req));
          base = \<lparr>ca_configured = server_oauth_configured s, ca_bound = False, ca_email = '''', ca_linked_at = '''',
            ca_flash_error = query_get ''error'' q, ca_flash_success = query_get ''success'' q\<rparr>
      in (case ws_cal_store s of
            None \<Rightarrow> base
          | Some st \<Rightarrow> (case get_binding st of
              (Some b, True) \<Rightarrow> base\<lparr>ca_bound := is_bound st, ca_email := cb_email b,
                ca_linked_at := (if cb_linked_at_unix b > 0
                  then format_rfc3339_utc (time_unix (cb_linked_at_unix b)) else '''')\<rparr>
            | _ \<Rightarrow> base\<lparr>ca_bound := is_bound st\<rparr>)))"

record status_data =
  sd_snapshot :: "snapshot option"
  sd_calendar :: calendar_status
  sd_active_event :: active_event
  sd_display :: display_state

type_synonym response = "status_data http_response"

definition plain_response :: "int \<Rightarrow> string \<Rightarrow> response" where
  "plain_response code msg = \<lparr>rp_status = code, rp_location = None, rp_content_type = Some text_plain,
     rp_cookies = [], rp_body = TextBody (msg @ [CHR 0x0A])\<rparr>"

definition handle_healthz :: "http_request \<Rightarrow> response" where
  "handle_healthz r = (if \<not> get_or_head r then method_not_allowed else plain_response 200 ''ok'')"

definition handle_ready :: "http_server \<Rightarrow> http_request \<Rightarrow> response" where
  "handle_ready s r =
     (if \<not> get_or_head r then method_not_allowed
      else (case ws_store s of
        Some t \<Rightarrow> if is_connected t then plain_response 200 ''ready'' else plain_response 503 ''not ready''
      | None \<Rightarrow> plain_response 503 ''not ready''))"

record status_env =
  se_now :: gtime
  se_offset :: int
  se_event :: active_event
  se_display :: display_state

text \<open>\<open>sd_snapshot\<close> is \<open>None\<close> for the zero snapshot of a server without a store.\<close>

definition status_of :: "status_env \<Rightarrow> http_server \<Rightarrow> http_request \<Rightarrow> status_data" where
  "status_of env s r =
     (let ev = (if ws_has_tracker s then se_event env else idle_event)
      in \<lparr>sd_snapshot = map_option (take_snapshot (se_now env)) (ws_store s),
          sd_calendar = calendar_status_of s (Some r), sd_active_event = ev,
          sd_display = (if ws_has_display s then se_display env
            else FormatDisplayState (se_offset env) ev (se_now env))\<rparr>)"

definition handle_status :: "(status_data \<Rightarrow> string + string) \<Rightarrow> status_env \<Rightarrow> http_server \<Rightarrow> http_request \<Rightarrow> response" where
  "handle_status template env s r =
     (if rq_path r \<noteq> ''/status'' \<and> rq_path r \<noteq> ''/'' then http_error [] ''404 page not found'' 404
      else if \<not> get_or_head r then method_not_allowed
      else let data = status_of env s r in
        if str_contains (rq_accept r) ''application/json'' \<or> query_get ''format'' (parse_query (rq_query r)) = ''json''
        then \<lparr>rp_status = 200, rp_location = None, rp_content_type = Some ''application/json'', rp_cookies = [],
               rp_body = (if rq_method r = ''HEAD'' then EmptyBody else JsonBody data)\<rparr>
        else if \<not> ws_has_template s then http_error [] ''Internal Server Error'' 500
        else (case template data of
          Inl _ \<Rightarrow> http_error [] ''Internal Server Error'' 500
        | Inr page \<Rightarrow> \<lparr>rp_status = 200, rp_location = None, rp_content_type = Some text_html, rp_cookies = [],
                        rp_body = HtmlBody page\<rparr>))"

section \<open>OAuth login\<close>

definition state_cookie :: "gtime \<Rightarrow> string \<Rightarrow> http_cookie" where
  "state_cookie now state = \<lparr>ck_name = ''oauth_state'', ck_value = state, ck_path = ''/'', ck_max_age = 600,
     ck_expires = time_add now (10 * minute), ck_http_only = True, ck_same_site = ''Lax''\<rparr>"

definition cleared_cookie :: http_cookie where
  "cleared_cookie = \<lparr>ck_name = ''oauth_state'', ck_value = '''', ck_path = ''/'', ck_max_age = -1,
     ck_expires = time_unix 0, ck_http_only = True, ck_same_site = ''Lax''\<rparr>"

definition already_bound :: "http_server \<Rightarrow> bool" where
  "already_bound s = (case ws_cal_store s of Some st \<Rightarrow> is_bound st | None \<Rightarrow> False)"

type_synonym url_builder = "oauth_config \<Rightarrow> string \<Rightarrow> (string \<times> string) list \<Rightarrow> string"

definition handle_login :: "url_builder \<Rightarrow> string + byte8 list \<Rightarrow> gtime \<Rightarrow> http_server \<Rightarrow> http_request
    \<Rightarrow> response option" where
  "handle_login auth_url nonce now s r =
     (if \<not> get_or_head r then Some method_not_allowed
      else if already_bound s then Some (http_error [] ''conflict: calendar already bound'' 409)
      else if \<not> server_oauth_configured s then Some (http_redirect [] r ''/status?error=oauth_unconfigured'' 303)
      else (case ws_oauth s of
        None \<Rightarrow> None
      | Some m \<Rightarrow> (case GenerateAuthURL auth_url m nonce of
          Inl _ \<Rightarrow> Some (http_error [] ''Internal Server Error'' 500)
        | Inr (url, state) \<Rightarrow> Some (http_redirect [state_cookie now state] r url 307))))"

section \<open>OAuth callback\<close>

text \<open>Up to \<open>Save\<close>: an answer, or the binding to save (\<open>None\<close> from a manager never occurs).\<close>

definition callback_begin :: "(string \<Rightarrow> string + string) \<Rightarrow> exchange_env \<Rightarrow> http_server \<Rightarrow> http_request
    \<Rightarrow> response + calendar_binding" where
  "callback_begin decode_email env s r =
     (if \<not> get_or_head r then Inl method_not_allowed
      else if already_bound s then Inl (http_error [] ''conflict: calendar already bound'' 409)
      else if (case map_of (rq_cookies r) ''oauth_state'' of None \<Rightarrow> True | Some v \<Rightarrow> blank v)
      then Inl (http_error [] ''bad request: missing oauth_state cookie'' 400)
      else let q = parse_query (rq_query r);
               state = query_get ''state'' q
        in if state = '''' \<or> map_of (rq_cookies r) ''oauth_state'' \<noteq> Some state
           then Inl (http_error [] ''bad request: invalid or mismatched state parameter'' 400)
           else if query_get ''error'' q \<noteq> ''''
           then Inl (http_redirect [cleared_cookie] r (''/status?error='' @ query_escape (query_get ''error'' q)) 303)
           else if blank (query_get ''code'' q)
           then Inl (http_error [] ''bad request: missing authorization code'' 400)
           else (case ws_oauth s of
             None \<Rightarrow> Inl (http_redirect [cleared_cookie] r ''/status?error=oauth_unconfigured'' 303)
           | Some m \<Rightarrow> (case ExchangeCode decode_email env (query_get ''code'' q) of
               Inl _ \<Rightarrow> Inl (http_redirect [cleared_cookie] r ''/status?error=exchange_failed'' 303)
             | Inr b \<Rightarrow> Inr b)))"

definition linked_response :: "http_request \<Rightarrow> response" where
  "linked_response r = http_redirect [cleared_cookie] r ''/status?success=linked'' 303"

definition callback_finish :: "(calendar_binding \<Rightarrow> string + string) \<Rightarrow> save_env \<Rightarrow> calendar_binding \<Rightarrow> http_request
    \<Rightarrow> http_server \<times> file_system \<Rightarrow> response \<times> http_server \<times> file_system" where
  "callback_finish marshal env b r s = (case s of (srv, fs) \<Rightarrow>
     (case ws_cal_store srv of
        None \<Rightarrow> (linked_response r, srv, fs)
      | Some st \<Rightarrow> (case save_binding marshal env (Some b) (st, fs) of (err, st', tr) \<Rightarrow>
          (case err of
             None \<Rightarrow> linked_response r
           | Some e \<Rightarrow> if e = ErrAlreadyBound
               then http_error [cleared_cookie] ''conflict: calendar already bound'' 409
               else http_redirect [cleared_cookie] r ''/status?error=save_failed'' 303,
           srv\<lparr>ws_cal_store := Some st'\<rparr>, last tr))))"

definition handle_callback :: "(string \<Rightarrow> string + string) \<Rightarrow> (calendar_binding \<Rightarrow> string + string)
    \<Rightarrow> exchange_env \<Rightarrow> save_env \<Rightarrow> http_request \<Rightarrow> http_server \<times> file_system
    \<Rightarrow> response \<times> http_server \<times> file_system" where
  "handle_callback decode_email marshal xenv senv r s =
     (case callback_begin decode_email xenv (fst s) r of
        Inl resp \<Rightarrow> (resp, s)
      | Inr b \<Rightarrow> callback_finish marshal senv b r s)"

section \<open>Routes\<close>

datatype route = RouteHealthz | RouteReady | RouteStatus | RouteLogin | RouteCallback

definition route_of :: "string \<Rightarrow> route" where
  "route_of path =
     (if path = ''/healthz'' then RouteHealthz else if path = ''/ready'' then RouteReady
      else if path = ''/oauth/google/login'' then RouteLogin
      else if path = ''/oauth/google/callback'' then RouteCallback else RouteStatus)"

end
