(* ===== verification/ServerOAuth.thy ===== *)
theory ServerOAuth
  imports Server
begin

text \<open>
  Linking the calendar: logins and callbacks that run concurrently. The server's only shared state
  is the calendar store, which a callback reads before the code exchange and writes after it. A
  state of the system holds the callbacks that have a binding and have not called \<open>Save\<close>, those
  that answered \<open>success=linked\<close>, and the states handed out; requests that only read are no steps.
  The store is used through the laws of \<open>binding_store\<close>.
\<close>

section \<open>Concurrent callbacks\<close>

record web_sys =
  wy_server :: http_server
  wy_fs :: file_system
  wy_flight :: "(http_request \<times> calendar_binding) list"
  wy_linked :: "(http_request \<times> calendar_binding) list"
  wy_states :: "string list"

inductive web_step :: "url_builder \<Rightarrow> (string \<Rightarrow> string + string) \<Rightarrow> (calendar_binding \<Rightarrow> string + string)
    \<Rightarrow> web_sys \<Rightarrow> web_sys \<Rightarrow> bool"
  for auth_url decode_email marshal where
  login: "handle_login auth_url nonce now (wy_server s) r = Some resp \<Longrightarrow>
     web_step auth_url decode_email marshal s
       (s\<lparr>wy_states := wy_states s @ map ck_value (rp_cookies resp)\<rparr>)"
| callback: "callback_begin decode_email env (wy_server s) r = Inr b \<Longrightarrow>
     web_step auth_url decode_email marshal s (s\<lparr>wy_flight := wy_flight s @ [(r, b)]\<rparr>)"
| saved: "(r, b) \<in> set (wy_flight s) \<Longrightarrow>
     callback_finish marshal env b r (wy_server s, wy_fs s) = (resp, srv, fs) \<Longrightarrow>
     web_step auth_url decode_email marshal s
       (s\<lparr>wy_server := srv, wy_fs := fs, wy_flight := remove1 (r, b) (wy_flight s),
         wy_linked := (if resp = linked_response r then wy_linked s @ [(r, b)] else wy_linked s)\<rparr>)"

definition web_init :: "http_server \<Rightarrow> file_system \<Rightarrow> web_sys" where
  "web_init srv fs = \<lparr>wy_server = srv, wy_fs = fs, wy_flight = [], wy_linked = [], wy_states = []\<rparr>"

inductive web_reach :: "url_builder \<Rightarrow> (string \<Rightarrow> string + string) \<Rightarrow> (calendar_binding \<Rightarrow> string + string)
    \<Rightarrow> http_server \<Rightarrow> file_system \<Rightarrow> web_sys \<Rightarrow> bool"
  for auth_url decode_email marshal srv fs where
  init: "web_reach auth_url decode_email marshal srv fs (web_init srv fs)"
| step: "web_reach auth_url decode_email marshal srv fs s \<Longrightarrow> web_step auth_url decode_email marshal s t \<Longrightarrow>
     web_reach auth_url decode_email marshal srv fs t"

definition state_matches :: "http_request \<Rightarrow> bool" where
  "state_matches r \<longleftrightarrow> (let v = query_get ''state'' (parse_query (rq_query r))
     in map_of (rq_cookies r) ''oauth_state'' = Some v \<and> \<not> blank v)"

definition linked_once :: "calendar_binding option \<Rightarrow> (http_request \<times> calendar_binding) list \<Rightarrow> bool" where
  "linked_once bound linked \<longleftrightarrow> (case bound of None \<Rightarrow> linked = [] | Some b \<Rightarrow> \<exists>r. linked = [(r, b)])"

definition web_inv :: "web_sys \<Rightarrow> bool" where
  "web_inv s \<longleftrightarrow> (\<exists>st. ws_cal_store (wy_server s) = Some st \<and> linked_once (cst_binding st) (wy_linked s))
     \<and> (\<forall>x \<in> set (wy_flight s) \<union> set (wy_linked s). state_matches (fst x) \<and> \<not> blank (cb_email (snd x)))"

lemma exchange_email: "ExchangeCode decode_email env code = Inr b \<Longrightarrow> \<not> blank (cb_email b)"
  by (auto simp: ExchangeCode_def split: sum.splits option.splits if_splits)

lemma callback_begin_Inr:
  assumes "callback_begin decode_email env s r = Inr b"
  shows "state_matches r \<and> \<not> blank (cb_email b) \<and> \<not> already_bound s
    \<and> query_get ''error'' (parse_query (rq_query r)) = ''''
    \<and> ExchangeCode decode_email env (query_get ''code'' (parse_query (rq_query r))) = Inr b"
  using assms
  by (auto simp: callback_begin_def state_matches_def Let_def exchange_email split: if_splits option.splits sum.splits)

lemma callback_finish_store:
  assumes "callback_finish marshal env b r (srv, fs) = (resp, srv', fs')" "ws_cal_store srv = Some st"
  obtains err st' where "save_state (marshal, env, fs) b st = (err, st')" "srv' = srv\<lparr>ws_cal_store := Some st'\<rparr>"
    "resp = linked_response r \<longleftrightarrow> err = None"
    "rp_location resp \<noteq> None \<Longrightarrow> err \<noteq> None \<Longrightarrow> resp = http_redirect [cleared_cookie] r ''/status?error=save_failed'' 303"
proof -
  obtain err st' tr where "save_binding marshal env (Some b) (st, fs) = (err, st', tr)"
    by (metis prod_cases3)
  with assms that [of err st'] show thesis
    by (auto simp: callback_finish_def save_state_def linked_response_def http_redirect_def http_error_def
        split: option.splits if_splits)
qed

lemma web_step_inv:
  assumes "web_step auth_url decode_email marshal s t" "web_inv s"
  shows "web_inv t"
  using assms
proof (induction rule: web_step.induct)
  case (callback env s r b)
  then show ?case using callback_begin_Inr [OF callback(1)] by (auto simp: web_inv_def)
next
  case (saved r b s env resp srv fs)
  then obtain st where st: "ws_cal_store (wy_server s) = Some st"
      "linked_once (cst_binding st) (wy_linked s)"
    by (auto simp: web_inv_def)
  obtain err st' where e: "save_state (marshal, env, wy_fs s) b st = (err, st')"
      "srv = (wy_server s)\<lparr>ws_cal_store := Some st'\<rparr>" "resp = linked_response r \<longleftrightarrow> err = None"
    using callback_finish_store [OF saved(2) st(1)] by metis
  have "linked_once (cst_binding st') (if err = None then wy_linked s @ [(r, b)] else wy_linked s)"
  proof (cases "cst_binding st")
    case None
    then show ?thesis
      using st(2) calst.save_succeeds [OF None] calst.save_fails [OF None] e(1)
      by (cases err) (auto simp: linked_once_def)
  next
    case (Some c)
    then show ?thesis using st(2) calst.save_bound [OF Some e(1)] by (auto simp: linked_once_def)
  qed
  moreover have "\<forall>x \<in> set (wy_flight s). state_matches (fst x) \<and> \<not> blank (cb_email (snd x))"
    using saved(3) by (simp add: web_inv_def)
  with saved(1) have "state_matches r \<and> \<not> blank (cb_email b)" by fastforce
  ultimately show ?case using saved(3) e(2,3)
    by (auto simp: web_inv_def dest!: notin_set_remove1 [rotated] set_remove1_subset [THEN subsetD])
qed (simp add: web_inv_def)

lemma web_reach_inv:
  assumes "web_reach auth_url decode_email marshal srv fs s"
    and "ws_cal_store srv = Some st" "cst_binding st = None"
  shows "web_inv s"
  using assms(1)
proof induction
  case init
  then show ?case using assms(2,3) by (simp add: web_inv_def web_init_def linked_once_def)
next
  case (step s t)
  then show ?case by (blast intro: web_step_inv)
qed

text \<open>
  C6: however the callbacks interleave, the calendar is linked at most once. In every reachable
  state of a server that started unbound, at most one callback answered \<open>success=linked\<close>; the
  binding in the store is the one that callback exchanged its code for; its state parameter was the
  one in its cookie, and not blank; and without such a callback the store is unbound.
\<close>

theorem callbacks_link_once:
  assumes "web_reach auth_url decode_email marshal srv fs s"
    and "ws_cal_store srv = Some st" "cst_binding st = None"
  shows "\<exists>st'. ws_cal_store (wy_server s) = Some st'
    \<and> ((wy_linked s = [] \<and> get_binding st' = (None, False))
      \<or> (\<exists>r b v. wy_linked s = [(r, b)] \<and> get_binding st' = (Some b, True) \<and> \<not> blank (cb_email b)
           \<and> map_of (rq_cookies r) ''oauth_state'' = Some v \<and> \<not> blank v
           \<and> query_get ''state'' (parse_query (rq_query r)) = v))"
proof -
  obtain st' where s: "ws_cal_store (wy_server s) = Some st'" "linked_once (cst_binding st') (wy_linked s)"
      "\<forall>x \<in> set (wy_linked s). state_matches (fst x) \<and> \<not> blank (cb_email (snd x))"
    using web_reach_inv [OF assms] by (auto simp: web_inv_def)
  then show ?thesis
    by (cases "cst_binding st'") (auto simp: linked_once_def get_binding_def state_matches_def Let_def)
qed

section \<open>A login and its callback\<close>

lemma b64_not_blank: "bs \<noteq> [] \<Longrightarrow> \<not> blank (b64_encode bs)"
proof -
  assume "bs \<noteq> []"
  then have "0 < length (b64_encode bs)" by (cases bs) (simp_all add: b64_length)
  then obtain c cs where c: "b64_encode bs = c # cs" by (cases "b64_encode bs") auto
  have "\<forall>c \<in> insert (CHR ''='') (set b64_alphabet). byte c < 128 \<and> \<not> is_space (byte c)"
    by (simp add: b64_alphabet_def is_space_def)
  moreover have "c \<in> insert (CHR ''='') (set b64_alphabet)" using b64_chars [of bs] c by auto
  ultimately show ?thesis unfolding c by (intro not_blank_Cons) auto
qed

lemma handle_login_redirect:
  assumes "handle_login auth_url (Inr nonce) now s r = Some resp" "rp_status resp = 307"
  shows "\<exists>m. ws_oauth s = Some m \<and> rp_cookies resp = [state_cookie now (b64_encode nonce)]
    \<and> rp_location resp = Some (auth_url (cm_oauth m) (b64_encode nonce)
        [(''access_type'', ''offline''), (''prompt'', ''consent'')])"
  using assms
  by (auto simp: handle_login_def GenerateAuthURL_def http_redirect_def http_error_def method_not_allowed_def
      Let_def split: if_splits option.splits)

text \<open>
  C11: a callback is tied to the login of the same browser. A login that redirects to the provider
  puts the state it names there in the cookie, and no other cookie. A callback with that cookie is
  refused as a bad request when its state parameter is that of another nonce, and reaches the code
  exchange, whose result it returns, when it is that of the login's.
\<close>

theorem callback_needs_state_of_login:
  assumes "handle_login auth_url (Inr n1) now s1 r1 = Some resp" "rp_status resp = 307"
    and "length n1 = 32" "length n2 = 32"
    and "rq_cookies r = map (\<lambda>c. (ck_name c, ck_value c)) (rp_cookies resp)"
    and "get_or_head r" "\<not> already_bound s2" "ws_oauth s2 \<noteq> None"
    and "parse_query (rq_query r) = [(''code'', code), (''state'', b64_encode n2)]" "\<not> blank code"
  shows "rp_location resp = Some (auth_url (cm_oauth (the (ws_oauth s1))) (b64_encode n1)
      [(''access_type'', ''offline''), (''prompt'', ''consent'')])
    \<and> callback_begin decode_email env s2 r =
        (if n1 = n2
         then (case ExchangeCode decode_email env code of
             Inr b \<Rightarrow> Inr b
           | Inl _ \<Rightarrow> Inl (http_redirect [cleared_cookie] r ''/status?error=exchange_failed'' 303))
         else Inl (http_error [] ''bad request: invalid or mismatched state parameter'' 400))"
proof -
  from handle_login_redirect [OF assms(1,2)] obtain m where m: "ws_oauth s1 = Some m"
      "rp_cookies resp = [state_cookie now (b64_encode n1)]"
      "rp_location resp = Some (auth_url (cm_oauth m) (b64_encode n1)
        [(''access_type'', ''offline''), (''prompt'', ''consent'')])" by blast
  have b: "\<not> blank (b64_encode n1)" "\<not> blank (b64_encode n2)" using assms(3,4) by (auto intro!: b64_not_blank)
  then have e: "b64_encode n2 \<noteq> ''''" by auto
  have c: "map_of (rq_cookies r) ''oauth_state'' = Some (b64_encode n1)"
    using assms(5) m(2) by (simp add: state_cookie_def)
  obtain m2 where m2: "ws_oauth s2 = Some m2" using assms(8) by blast
  have "callback_begin decode_email env s2 r =
        (if n1 = n2
         then (case ExchangeCode decode_email env code of
             Inr b \<Rightarrow> Inr b
           | Inl _ \<Rightarrow> Inl (http_redirect [cleared_cookie] r ''/status?error=exchange_failed'' 303))
         else Inl (http_error [] ''bad request: invalid or mismatched state parameter'' 400))"
  proof (cases "n1 = n2")
    case True
    then show ?thesis using assms(6,7,9,10) b e c m2
      by (simp add: callback_begin_def query_get_def Let_def split: sum.splits)
  next
    case False
    then have "b64_encode n1 \<noteq> b64_encode n2" using b64_inj [of n1 n2] assms(3,4) by auto
    then show ?thesis using assms(6,7,9) b e c False by (simp add: callback_begin_def query_get_def Let_def)
  qed
  then show ?thesis using m by simp
qed

section \<open>What the status page shows\<close>

lemma follow_status: "follow cookies (''/status?'' @ q) = \<lparr>rq_method = ''GET'', rq_path = ''/status'',
    rq_query = q, rq_accept = ''text/html'', rq_cookies = cookies\<rparr>"
  using cut_char_found [of "CHR ''?''" "''/status''" q] by (simp add: follow_def)

lemma flash_query:
  "parse_query (''error='' @ query_escape v) = [(''error'', v)]"
  "parse_query (''success='' @ query_escape v) = [(''success'', v)]"
  using parse_query_single [of "''error''" v] parse_query_single [of "''success''" v]
  by (simp_all add: is_unreserved_def is_digit_def)

lemma query_escape_word: "\<forall>c \<in> set s. is_unreserved c \<Longrightarrow> query_escape s = s"
  by (induction s) (simp_all add: query_escape_def)

definition shows_flash :: "http_server \<Rightarrow> string \<Rightarrow> string \<Rightarrow> string \<Rightarrow> bool" where
  "shows_flash s url err ok \<longleftrightarrow> rq_path (follow [] url) = ''/status''
     \<and> ca_flash_error (calendar_status_of s (Some (follow [] url))) = err
     \<and> ca_flash_success (calendar_status_of s (Some (follow [] url))) = ok"

lemma calendar_status_flash:
  "ca_flash_error (calendar_status_of s (Some r)) = query_get ''error'' (parse_query (rq_query r))"
  "ca_flash_success (calendar_status_of s (Some r)) = query_get ''success'' (parse_query (rq_query r))"
  by (simp_all add: calendar_status_of_def Let_def split: option.split prod.split bool.split)

lemma shows_flash_escaped:
  "shows_flash s (''/status?error='' @ query_escape v) v ''''"
  using follow_status [of "[]" "''error='' @ query_escape v"]
  by (simp add: shows_flash_def calendar_status_flash flash_query [simplified] query_get_def)

lemma shows_flash_words:
  "shows_flash s ''/status?error=oauth_unconfigured'' ''oauth_unconfigured'' ''''"
  "shows_flash s ''/status?error=exchange_failed'' ''exchange_failed'' ''''"
  "shows_flash s ''/status?error=save_failed'' ''save_failed'' ''''"
  "shows_flash s ''/status?success=linked'' '''' ''linked''"
  using shows_flash_escaped [of s "''oauth_unconfigured''"] shows_flash_escaped [of s "''exchange_failed''"]
    shows_flash_escaped [of s "''save_failed''"] query_escape_word [of "''oauth_unconfigured''"]
    query_escape_word [of "''exchange_failed''"] query_escape_word [of "''save_failed''"]
    query_escape_word [of "''linked''"] follow_status [of "[]" "''success=linked''"] flash_query(2) [of "''linked''"]
  by (simp_all add: is_unreserved_def is_digit_def shows_flash_def calendar_status_flash query_get_def)

text \<open>
  C20: the browser sees what happened. Every redirect of the callback leads to the status page of
  the same server. After a success that page says \<open>linked\<close>, no error, and shows the address of the
  binding just saved; after a failure it shows the provider's error text, unchanged by the
  escaping, or one of the three errors of the callback, and the server is as it was.
\<close>

theorem redirect_shows_outcome:
  assumes "handle_callback decode_email marshal xenv senv r (srv, fs) = (resp, srv', fs')"
    and "rp_location resp = Some url" "ws_cal_store srv = Some st"
  shows "rp_status resp = 303 \<and> rp_cookies resp = [cleared_cookie]
    \<and> ((\<exists>b. shows_flash srv' url '''' ''linked''
            \<and> ExchangeCode decode_email xenv (query_get ''code'' (parse_query (rq_query r))) = Inr b
            \<and> ca_bound (calendar_status_of srv' None) \<and> ca_email (calendar_status_of srv' None) = cb_email b)
      \<or> (\<exists>err. shows_flash srv' url err '''' \<and> srv' = srv \<and> \<not> ca_bound (calendar_status_of srv' None)
            \<and> (err = query_get ''error'' (parse_query (rq_query r)) \<and> err \<noteq> ''''
               \<or> err \<in> set [''oauth_unconfigured'', ''exchange_failed'', ''save_failed''])))"
proof (cases "callback_begin decode_email xenv srv r")
  case (Inl resp')
  then have r: "resp = resp'" "srv' = srv" using assms(1) by (simp_all add: handle_callback_def)
  then have "\<not> already_bound srv \<and> (\<exists>err. resp = http_redirect [cleared_cookie] r url 303 \<and> shows_flash srv url err ''''
      \<and> (err = query_get ''error'' (parse_query (rq_query r)) \<and> err \<noteq> ''''
         \<or> err \<in> set [''oauth_unconfigured'', ''exchange_failed'', ''save_failed'']))"
    using Inl assms(2) shows_flash_escaped [of srv "query_get ''error'' (parse_query (rq_query r))"] shows_flash_words [of srv]
    by (auto simp: callback_begin_def http_error_def method_not_allowed_def http_redirect_def Let_def
        split: if_splits option.splits sum.splits)
  then show ?thesis using r(2) assms(3)
    by (auto simp: http_redirect_def already_bound_def is_bound_def get_binding_def calendar_status_of_def)
next
  case (Inr b)
  note b = callback_begin_Inr [OF Inr]
  then have u: "cst_binding st = None" using assms(3) by (simp add: already_bound_def is_bound_def)
  from assms(1) Inr have "callback_finish marshal senv b r (srv, fs) = (resp, srv', fs')"
    by (simp add: handle_callback_def)
  from callback_finish_store [OF this assms(3)] obtain err st' where
    e: "save_state (marshal, senv, fs) b st = (err, st')" "srv' = srv\<lparr>ws_cal_store := Some st'\<rparr>"
      "resp = linked_response r \<longleftrightarrow> err = None"
      "err \<noteq> None \<Longrightarrow> resp = http_redirect [cleared_cookie] r ''/status?error=save_failed'' 303"
    using assms(2) by (metis option.distinct(1))
  show ?thesis
  proof (cases err)
    case None
    then have "cst_binding st' = Some b" using calst.save_succeeds [OF u] e(1) by blast
    then show ?thesis using None e(2,3) assms(2) b shows_flash_words(4)
      by (auto simp: linked_response_def http_redirect_def calendar_status_of_def is_bound_def get_binding_def)
  next
    case (Some x)
    then have "st' = st" using save_state_facts [OF e(1)] by simp
    then have "srv' = srv" using e(2) assms(3) by simp
    then show ?thesis using Some e(4) assms(2,3) u shows_flash_words(3)
      by (auto simp: http_redirect_def calendar_status_of_def is_bound_def get_binding_def)
  qed
qed

section \<open>A concrete callback\<close>

definition demo_manager :: cal_manager where
  "demo_manager = new_manager ('''', '''') \<lparr>mc_client_id = ''i'', mc_client_secret = ''s'', mc_redirect_url = '''',
    mc_auth_url = '''', mc_token_url = '''', mc_user_info_url = ''''\<rparr>"

definition demo_server :: http_server where
  "demo_server = new_server True server_default_config None [with_calendar_store (Some demo_store),
     with_oauth_manager (Some demo_manager), with_oauth_configured True]"

definition demo_exchange :: exchange_env where
  "demo_exchange = \<lparr>xe_token = Inr \<lparr>ot_access_token = ''t'', ot_refresh_token = ''r'', ot_expiry = 0\<rparr>,
     xe_new_request = None, xe_response = Inr (200, ''x''), xe_now = 0\<rparr>"

definition demo_callback :: "string \<Rightarrow> string \<Rightarrow> http_request" where
  "demo_callback cookie state = \<lparr>rq_method = ''GET'', rq_path = ''/oauth/google/callback'',
     rq_query = (''code='' @ query_escape ''c'') @ ''&'' @ ''state='' @ query_escape state, rq_accept = '''',
     rq_cookies = [(''oauth_state'', cookie)]\<rparr>"

lemma demo_query: "parse_query (rq_query (demo_callback cookie state)) = [(''code'', ''c''), (''state'', state)]"
  using parse_query_more [of "''code''" "''c''"] parse_query_single [of "''state''" state]
  by (simp add: demo_callback_def is_unreserved_def is_digit_def)

lemma demo_server_fields:
  "ws_cal_store demo_server = Some demo_store" "ws_oauth demo_server = Some demo_manager"
  "server_oauth_configured demo_server" "\<not> already_bound demo_server" "cst_binding demo_store = None"
  by (simp_all add: demo_server_def new_server_def with_calendar_store_def with_oauth_manager_def
      with_oauth_configured_def server_oauth_configured_def already_bound_def is_bound_def demo_store_def Let_def)

lemma demo_words: "\<not> blank ''c''" "\<not> blank ''s''" "\<not> blank ''a@b.c''"
  by (simp_all add: not_blank_Cons is_space_def)

lemma demo_exchanged:
  obtains b where "ExchangeCode (\<lambda>_. Inr ''a@b.c'') demo_exchange ''c'' = Inr b" "cb_email b = ''a@b.c''"
  using demo_words by (simp add: ExchangeCode_def demo_exchange_def)

lemma demo_begins:
  obtains b where "callback_begin (\<lambda>_. Inr ''a@b.c'') demo_exchange demo_server (demo_callback ''s'' ''s'') = Inr b"
    "cb_email b = ''a@b.c''"
proof (rule demo_exchanged)
  fix b assume b: "ExchangeCode (\<lambda>_. Inr ''a@b.c'') demo_exchange ''c'' = Inr b" "cb_email b = ''a@b.c''"
  have "callback_begin (\<lambda>_. Inr ''a@b.c'') demo_exchange demo_server (demo_callback ''s'' ''s'') = Inr b"
    using b(1) demo_words
    by (simp add: callback_begin_def get_or_head_def demo_server_fields demo_query query_get_def Let_def)
      (simp add: demo_callback_def)
  with b(2) that show thesis by blast
qed

lemma demo_finishes:
  obtains srv fs where "callback_finish (\<lambda>_. Inr ''abc'') demo_save_env b r (demo_server, Map.empty)
    = (linked_response r, srv, fs)"
  by (simp add: callback_finish_def demo_server_fields save_binding_def write_and_rename_def demo_save_env_def
      demo_store_def Let_def cong: if_cong)

lemma callbacks_link_once_witness:
  "\<exists>s r b. web_reach (\<lambda>_ t _. t) (\<lambda>_. Inr ''a@b.c'') (\<lambda>_. Inr ''abc'') demo_server Map.empty s
     \<and> wy_linked s = [(r, b)] \<and> (\<exists>st. ws_cal_store (wy_server s) = Some st \<and> get_binding st = (Some b, True))"
proof -
  let ?r = "demo_callback ''s'' ''s''" and ?R = "web_reach (\<lambda>_ t _. t) (\<lambda>_. Inr ''a@b.c'') (\<lambda>_. Inr ''abc'') demo_server Map.empty"
  obtain b where b: "callback_begin (\<lambda>_. Inr ''a@b.c'') demo_exchange demo_server ?r = Inr b" by (rule demo_begins)
  obtain srv fs where f: "callback_finish (\<lambda>_. Inr ''abc'') demo_save_env b ?r (demo_server, Map.empty)
      = (linked_response ?r, srv, fs)" by (rule demo_finishes)
  let ?i = "web_init demo_server Map.empty"
  let ?s = "?i\<lparr>wy_flight := [(?r, b)]\<rparr>"
  have "?R ?s" using web_reach.step [OF web_reach.init web_step.callback] b by (fastforce simp: web_init_def)
  moreover have "web_step (\<lambda>_ t _. t) (\<lambda>_. Inr ''a@b.c'') (\<lambda>_. Inr ''abc'') ?s
      (?s\<lparr>wy_server := srv, wy_fs := fs, wy_flight := [], wy_linked := [(?r, b)]\<rparr>)"
    using web_step.saved [of ?r b ?s "\<lambda>_. Inr ''abc''" demo_save_env _ srv fs] f by (simp add: web_init_def)
  ultimately have s: "?R (?s\<lparr>wy_server := srv, wy_fs := fs, wy_flight := [], wy_linked := [(?r, b)]\<rparr>)"
    by (rule web_reach.step)
  from callbacks_link_once [OF s demo_server_fields(1,5)] s show ?thesis by auto
qed

lemma callback_needs_state_of_login_witness:
  "\<exists>resp. callback_begin (\<lambda>_. Inr ''a@b.c'') demo_exchange demo_server
      (demo_callback (b64_encode (replicate 32 0)) (b64_encode (replicate 32 1))) = Inl resp \<and> rp_status resp = 400"
proof -
  let ?l = "\<lparr>rq_method = ''GET'', rq_path = ''/oauth/google/login'', rq_query = '''', rq_accept = '''', rq_cookies = []\<rparr>"
  let ?r = "demo_callback (b64_encode (replicate 32 0)) (b64_encode (replicate 32 1))"
  obtain resp where l: "handle_login (\<lambda>_ t _. t) (Inr (replicate 32 0)) 0 demo_server ?l = Some resp"
      "rp_status resp = 307" "rp_cookies resp = [state_cookie 0 (b64_encode (replicate 32 0))]"
    by (simp add: handle_login_def get_or_head_def demo_server_fields GenerateAuthURL_def http_redirect_def Let_def)
  have "replicate 32 (0::byte8) \<noteq> replicate 32 1" by (simp add: replicate_eq_replicate)
  moreover have "rq_cookies ?r = map (\<lambda>c. (ck_name c, ck_value c)) (rp_cookies resp)" "get_or_head ?r"
    by (simp_all add: l(3) demo_callback_def state_cookie_def get_or_head_def)
  ultimately show ?thesis
    using callback_needs_state_of_login [OF l(1,2), of "replicate 32 1" ?r demo_server "''c''" "\<lambda>_. Inr ''a@b.c''" demo_exchange]
    by (simp add: demo_server_fields demo_query demo_words http_error_def)
qed

lemma redirect_shows_outcome_witness:
  "\<exists>resp srv fs. handle_callback (\<lambda>_. Inr ''a@b.c'') (\<lambda>_. Inr ''abc'') demo_exchange demo_save_env
       (demo_callback ''s'' ''s'') (demo_server, Map.empty) = (resp, srv, fs)
     \<and> shows_flash srv ''/status?success=linked'' '''' ''linked'' \<and> ca_email (calendar_status_of srv None) = ''a@b.c''"
proof -
  let ?r = "demo_callback ''s'' ''s''"
  obtain b where b: "callback_begin (\<lambda>_. Inr ''a@b.c'') demo_exchange demo_server ?r = Inr b" "cb_email b = ''a@b.c''"
    by (rule demo_begins)
  obtain srv fs where f: "callback_finish (\<lambda>_. Inr ''abc'') demo_save_env b ?r (demo_server, Map.empty)
      = (linked_response ?r, srv, fs)" by (rule demo_finishes)
  then have h: "handle_callback (\<lambda>_. Inr ''a@b.c'') (\<lambda>_. Inr ''abc'') demo_exchange demo_save_env ?r (demo_server, Map.empty)
      = (linked_response ?r, srv, fs)" using b(1) by (simp add: handle_callback_def)
  have u: "rp_location (linked_response ?r) = Some ''/status?success=linked''"
    by (simp add: linked_response_def http_redirect_def)
  have n: "\<not> shows_flash srv ''/status?success=linked'' err ''''" for err
    using shows_flash_words(4) [of srv] by (auto simp: shows_flash_def)
  have e: "ExchangeCode (\<lambda>_. Inr ''a@b.c'') demo_exchange (query_get ''code'' (parse_query (rq_query ?r))) = Inr b"
    using callback_begin_Inr [OF b(1)] by blast
  from redirect_shows_outcome [OF h u demo_server_fields(1)] n e b(2) h show ?thesis by auto
qed

end
