(* ===== verification/Runner.thy ===== *)
theory Runner
  imports AppConfig Server HassClient Decoder BusyClient PushClient
begin

text \<open>
  \<open>internal/runner/runner.go\<close>: the wiring of the components and the path of an event from a frame
  to the queue of the Home Assistant client. Telemetry stores are shared by reference, so the runner
  has a heap of them and each component an address. The server's and the poller's views of the
  calendar store are the runner's.

  Lemmas: a translated event has the JSON object of the normalized event it came from; a frame's
  events are recorded, numbered and offered to the queue in order, each exactly once; a runner
  built from a valid configuration is wired as the configuration says.
\<close>

section \<open>Translation\<close>

text \<open>The runner's own tables of names.\<close>

definition runner_button :: "enum32 \<Rightarrow> string" where
  "runner_button b = (if b = Button_OK then ''ok'' else if b = Button_BACK then ''back''
     else if b = Button_START then ''start'' else ''unknown'')"

definition runner_action :: "enum32 \<Rightarrow> string" where
  "runner_action a = (if a = ACTION_PRESS then ''press'' else if a = ACTION_RELEASE then ''release''
     else ''unknown'')"

definition runner_position :: "enum32 \<Rightarrow> string" where
  "runner_position p = (if p = SWITCH_BUSY then ''busy'' else if p = SWITCH_CUSTOM then ''custom''
     else if p = SWITCH_OFF then ''off'' else if p = SWITCH_APPS then ''apps''
     else if p = SWITCH_SETTINGS then ''settings'' else ''unknown'')"

definition translate_event :: "gtime \<Rightarrow> gtime \<Rightarrow> norm_event option \<Rightarrow> hass_event option" where
  "translate_event now created evt = (case evt of
     None \<Rightarrow> None
   | Some e \<Rightarrow>
      (let device = (if ne_device e = '''' then ''busybar'' else ne_device e);
           ts = (if ne_timestamp e \<le> 0 then unix_of now else ne_timestamp e);
           own = (\<lambda>d. if d \<noteq> '''' then d else device)
       in (case ne_event e of
             None \<Rightarrow> None
           | Some (NormalizedEvent_Button None) \<Rightarrow> None
           | Some (NormalizedEvent_Button (Some b)) \<Rightarrow>
               Some (new_button_event created (own (nb_device b)) (runner_button (nb_button b)) (runner_action (nb_action b)) ts)
           | Some (NormalizedEvent_Switch None) \<Rightarrow> None
           | Some (NormalizedEvent_Switch (Some w)) \<Rightarrow>
               Some (new_switch_event created (own (nw_device w)) (runner_position (nw_position w)) ts)
           | Some (NormalizedEvent_Encoder None) \<Rightarrow> None
           | Some (NormalizedEvent_Encoder (Some c)) \<Rightarrow>
               Some (new_encoder_event created (own (nc_device c)) (sint (nc_delta c)) ts))))"

text \<open>The verb \<open>%v\<close>; how it writes a \<open>float64\<close> is the parameter \<open>fg\<close>.\<close>

fun show_value :: "(rat \<Rightarrow> string) \<Rightarrow> gval \<Rightarrow> string" where
  "show_value fg (GStr s) = s"
| "show_value fg (GInt n) = itoa n"
| "show_value fg (GInt32 n) = itoa n"
| "show_value fg (GInt64 n) = itoa n"
| "show_value fg (GFloat q) = fg q"
| "show_value fg (GNumber s) = s"
| "show_value fg (GBool b) = (if b then ''true'' else ''false'')"
| "show_value fg GNil = ''<nil>''"
| "show_value fg (GOther s) = s"

definition format_summary :: "(rat \<Rightarrow> string) \<Rightarrow> hass_event \<Rightarrow> string" where
  "format_summary fg ev =
     (if he_type ev = EventTypeButton
      then ''button '' @ get_str (he_data ev) ''button'' @ '' '' @ get_str (he_data ev) ''action''
      else if he_type ev = EventTypeSwitch then ''switch '' @ get_str (he_data ev) ''position''
      else if he_type ev = EventTypeEncoder
      then ''encoder '' @ show_value fg (case map_of (he_data ev) ''delta'' of Some v \<Rightarrow> v | None \<Rightarrow> GNil)
      else he_type ev)"

section \<open>The runner\<close>

text \<open>\<open>rn_decoder\<close> is the decoder's device identifier; \<open>rn_hass\<close> has the address of the client's store.\<close>

record runner =
  rn_cfg :: app_config
  rn_heap :: "nat \<Rightarrow> tstore"
  rn_store :: "nat option"
  rn_busy :: "busy_client option"
  rn_decoder :: "string option"
  rn_hass :: "(hass_client \<times> nat) option"
  rn_server :: "http_server option"
  rn_cal_store :: "cal_store option"
  rn_cal_mgr :: "cal_manager option"
  rn_poller :: "poller option"
  rn_push :: "push_client option"
  rn_display :: "orchestrator option"
  rn_running :: bool

definition on_store :: "(tstore \<Rightarrow> tstore) \<Rightarrow> runner \<Rightarrow> runner" where
  "on_store f r = (case rn_store r of None \<Rightarrow> r | Some a \<Rightarrow> r\<lparr>rn_heap := (rn_heap r)(a := f (rn_heap r a))\<rparr>)"

section \<open>Frames\<close>

record event_clock =
  ek_now :: gtime
  ek_created :: gtime
  ek_recorded :: gtime
  ek_queued :: gtime

text \<open>The body of the loop over the events of a frame; \<open>None\<close> is a panic of \<open>Enqueue\<close>.\<close>

definition handle_event :: "(rat \<Rightarrow> string) \<Rightarrow> event_clock \<Rightarrow> norm_event \<Rightarrow> runner \<Rightarrow> runner option" where
  "handle_event fg ek e r = (case translate_event (ek_now ek) (ek_created ek) (Some e) of
     None \<Rightarrow> Some r
   | Some h \<Rightarrow>
      (let (r1, h1) = (case rn_store r of
             None \<Rightarrow> (r, h)
           | Some a \<Rightarrow> (case record_event (ek_recorded ek) (he_type h) (format_summary fg h) (rn_heap r a) of
               (t, i) \<Rightarrow> (r\<lparr>rn_heap := (rn_heap r)(a := t)\<rparr>, h\<lparr>he_trace_id := i\<rparr>)))
       in (case rn_hass r1 of
             None \<Rightarrow> Some r1
           | Some (c, a) \<Rightarrow> (case hass_enqueue (ek_queued ek) h1 (c, Some (rn_heap r1 a)) of
               None \<Rightarrow> None
             | Some (_, c', t) \<Rightarrow> Some (r1\<lparr>rn_hass := Some (c', a),
                 rn_heap := (case t of None \<Rightarrow> rn_heap r1 | Some t' \<Rightarrow> (rn_heap r1)(a := t'))\<rparr>)))))"

fun handle_events :: "(rat \<Rightarrow> string) \<Rightarrow> (event_clock \<times> norm_event) list \<Rightarrow> runner \<Rightarrow> runner option" where
  "handle_events fg [] r = Some r"
| "handle_events fg ((ek, e) # es) r = (case handle_event fg ek e r of None \<Rightarrow> None | Some r' \<Rightarrow> handle_events fg es r')"

text \<open>\<open>SetConnected(IsConnected())\<close>, also what the ticker does.\<close>

definition sync_connected :: "gtime \<Rightarrow> runner \<Rightarrow> runner" where
  "sync_connected now r = (case rn_busy r of
     None \<Rightarrow> r
   | Some b \<Rightarrow> on_store (set_connected now (ls_connected (bb_status b))) r)"

text \<open>The clock readings of the events are \<open>clk\<close>, by position.\<close>

definition handle_frame :: "codec \<Rightarrow> (rat \<Rightarrow> string) \<Rightarrow> gtime \<Rightarrow> (nat \<Rightarrow> event_clock) \<Rightarrow> gtime \<Rightarrow> string
    \<Rightarrow> runner \<Rightarrow> runner option" where
  "handle_frame unmarshal fg now clk sync_at frame r = (case rn_decoder r of
     None \<Rightarrow> Some r
   | Some device \<Rightarrow> (case fst (decode unmarshal device now frame) of
       Inl _ \<Rightarrow> Some r
     | Inr events \<Rightarrow> map_option (sync_connected sync_at)
         (handle_events fg (zip (map clk [0..<length events]) events) r)))"

section \<open>Construction\<close>

datatype runner_error = NilConfig | InvalidConfig config_error | CalendarStoreFailed store_error
  | HassClientFailed hass_config_error | NilStorePanic

text \<open>
  The runner's own store has address 0. Options are applied after the first components are built;
  \<open>google\<close> are the endpoints of the OAuth library and \<open>fault\<close> what reading the binding file met.
  An option that takes the store away makes the next call on it panic.
\<close>

definition new_runner :: "uri_parser \<Rightarrow> string \<times> string \<Rightarrow> (string \<Rightarrow> string + calendar_binding)
    \<Rightarrow> string option \<Rightarrow> file_system \<Rightarrow> (nat \<Rightarrow> tstore) \<Rightarrow> gtime \<Rightarrow> bool \<Rightarrow> app_config option
    \<Rightarrow> (runner \<Rightarrow> runner) list \<Rightarrow> runner_error + runner" where
  "new_runner uri google unmarshal fault fs heap now template_ok config opts = (case config of
     None \<Rightarrow> Inl NilConfig
   | Some cfg \<Rightarrow> (case app_validate uri cfg of
       Some err \<Rightarrow> Inl (InvalidConfig err)
     | None \<Rightarrow> (case new_cal_store unmarshal fault fs (if ac_calendar_store_path cfg = ''''
           then ac_calendar_store_path app_default_config else ac_calendar_store_path cfg) of
         Inl err \<Rightarrow> Inl (CalendarStoreFailed err)
       | Inr cal_store \<Rightarrow>
          (let cal_mgr = (if is_oauth_configured cfg
                 then Some (new_manager google \<lparr>mc_client_id = ac_google_client_id cfg,
                   mc_client_secret = ac_google_client_secret cfg, mc_redirect_url = ac_google_redirect_url cfg,
                   mc_auth_url = '''', mc_token_url = '''', mc_user_info_url = ''''\<rparr>)
                 else None);
               busy = new_busy_client (busy_default_config\<lparr>bc_host := ac_busybar_host cfg,
                 bc_port := ac_busybar_port cfg\<rparr>)
           in (case new_hass_client uri (hass_default_config\<lparr>hc_base_url := ac_hass_url cfg,
                 hc_token := ac_hass_token cfg, hc_event_type := ac_hass_event_type cfg,
                 hc_request_timeout := ac_hass_timeout cfg\<rparr>) of
                Inl err \<Rightarrow> Inl (HassClientFailed err)
              | Inr hass \<Rightarrow>
                 (let r0 = fold (\<lambda>opt r. opt r) opts
                        \<lparr>rn_cfg = cfg,
                         rn_heap = heap(0 := set_push_enabled (ac_enable_outbound_push cfg) (new_store now)),
                         rn_store = Some 0, rn_busy = Some busy, rn_decoder = Some (ac_busybar_device_id cfg),
                         rn_hass = Some (hass, 0), rn_server = None, rn_cal_store = Some cal_store,
                         rn_cal_mgr = cal_mgr, rn_poller = None, rn_push = None, rn_display = None,
                         rn_running = False\<rparr>
                  in if rn_store r0 = None then Inl NilStorePanic else
                  let r1 = on_store (set_calendar_sync_enabled (ac_enable_calendar_sync cfg))
                             (on_store (set_push_enabled (ac_enable_outbound_push cfg)) r0);
                      r2 = (if rn_poller r1 = None \<and> ac_enable_calendar_sync cfg
                            then (case new_poller True (ac_calendar_poll_interval cfg) (rn_cal_store r1) (rn_cal_mgr r1)
                                    '''' False (map_option (rn_heap r1) (rn_store r1)) of (p, t) \<Rightarrow>
                                  on_store (\<lambda>_. the t) (r1\<lparr>rn_poller := Some p\<rparr>))
                            else r1);
                      r3 = (if rn_push r2 = None
                            then r2\<lparr>rn_push := Some (new_push_client (default_push_config
                              \<lparr>pc_enabled := ac_enable_outbound_push cfg, pc_host := ac_busybar_host cfg,
                               pc_port := ac_busybar_port cfg, pc_api_key := ac_busybar_api_key cfg,
                               pc_timeout := (if ac_push_timeout cfg > 0 then ac_push_timeout cfg
                                              else pc_timeout default_push_config)\<rparr>))\<rparr>
                            else r2);
                      r4 = (if rn_display r3 = None \<and> ac_enable_outbound_push cfg \<and> ac_enable_calendar_sync cfg
                            then r3\<lparr>rn_display := Some (new_orchestrator True (rn_poller r3 \<noteq> None)
                              (rn_push r3 \<noteq> None) 0 0)\<rparr>
                            else r3)
                  in Inr (if rn_server r4 = None
                          then r4\<lparr>rn_server := Some (new_server template_ok
                            (server_default_config\<lparr>sc_port := ac_port cfg\<rparr>) (map_option (rn_heap r4) (rn_store r4))
                            ((if rn_cal_store r4 \<noteq> None then [with_calendar_store (rn_cal_store r4)] else [])
                             @ (if rn_cal_mgr r4 \<noteq> None then [with_oauth_manager (rn_cal_mgr r4)] else [])
                             @ [with_oauth_configured (is_oauth_configured cfg)]
                             @ (if rn_poller r4 \<noteq> None then [with_event_tracker True] else [])
                             @ (if rn_display r4 \<noteq> None then [with_display_provider True] else [])))\<rparr>
                          else r4)))))))"

text \<open>The options of the package; a store is given by its address.\<close>

definition rn_with_store :: "nat option \<Rightarrow> runner \<Rightarrow> runner" where
  "rn_with_store a r = r\<lparr>rn_store := a\<rparr>"
definition rn_with_busy_client :: "busy_client option \<Rightarrow> runner \<Rightarrow> runner" where
  "rn_with_busy_client c r = r\<lparr>rn_busy := c\<rparr>"
definition rn_with_decoder :: "string option \<Rightarrow> runner \<Rightarrow> runner" where
  "rn_with_decoder d r = r\<lparr>rn_decoder := d\<rparr>"
definition rn_with_hass_client :: "(hass_client \<times> nat) option \<Rightarrow> runner \<Rightarrow> runner" where
  "rn_with_hass_client c r = r\<lparr>rn_hass := c\<rparr>"
definition rn_with_server :: "http_server option \<Rightarrow> runner \<Rightarrow> runner" where
  "rn_with_server s r = r\<lparr>rn_server := s\<rparr>"
definition rn_with_calendar_store :: "cal_store option \<Rightarrow> runner \<Rightarrow> runner" where
  "rn_with_calendar_store s r = r\<lparr>rn_cal_store := s\<rparr>"
definition rn_with_calendar_manager :: "cal_manager option \<Rightarrow> runner \<Rightarrow> runner" where
  "rn_with_calendar_manager m r = r\<lparr>rn_cal_mgr := m\<rparr>"
definition rn_with_calendar_poller :: "poller option \<Rightarrow> runner \<Rightarrow> runner" where
  "rn_with_calendar_poller p r = r\<lparr>rn_poller := p\<rparr>"
definition rn_with_push_client :: "push_client option \<Rightarrow> runner \<Rightarrow> runner" where
  "rn_with_push_client c r = r\<lparr>rn_push := c\<rparr>"
definition rn_with_display :: "orchestrator option \<Rightarrow> runner \<Rightarrow> runner" where
  "rn_with_display d r = r\<lparr>rn_display := d\<rparr>"

end
