(* ===== verification/RunnerPipeline.thy ===== *)
theory RunnerPipeline
  imports Runner
begin

text \<open>
  What the runner does with the events of a frame, and what it builds from a configuration. The
  queue is used through the laws of \<open>dispatcher\<close>.
\<close>

section \<open>Translation and the two JSON forms\<close>

lemma decode_updates_elem:
  assumes "e \<in> set (decode_updates device ts us)"
  obtains i ev where "input_spec device ts i = Some ev"
    "e = \<lparr>ne_device = device, ne_timestamp = ts, ne_event = Some ev\<rparr>"
proof -
  obtain u where "e \<in> set (update_spec device ts u)"
    using assms by (auto simp: decode_updates_spec)
  moreover from this obtain i where i: "Option.bind (StateUpdate_GetInput u) ie_event = Some i"
    by (cases "Option.bind (StateUpdate_GetInput u) ie_event") (auto simp: update_spec_def)
  ultimately show thesis using that [of i] by (cases "input_spec device ts i") (auto simp: update_spec_def)
qed

lemma input_specE:
  assumes "input_spec d ts i = Some ev"
  obtains b where "ev = NormalizedEvent_Button (Some b)" "nb_device b = d" "nb_timestamp b = ts"
    | w where "ev = NormalizedEvent_Switch (Some w)" "nw_device w = d" "nw_timestamp w = ts"
    | c where "ev = NormalizedEvent_Encoder (Some c)" "nc_device c = d" "nc_timestamp c = ts"
proof (cases i)
  case (InputEvent_ButtonEvent x)
  then show thesis using assms that(1) by (cases x) auto
next
  case (InputEvent_SwitchEvent x)
  then show thesis using assms that(2) by (cases x) auto
next
  case (InputEvent_EncoderEvent x)
  then show thesis using assms that(3) by (cases x) auto
qed

text \<open>The tables of \<open>runner.go\<close> and of \<open>pkg/pb/event.go\<close> are written twice and agree.\<close>

lemma runner_names: "runner_button = button_str" "runner_action = action_str" "runner_position = position_str"
  by (simp_all add: fun_eq_iff runner_button_def runner_action_def runner_position_def
      button_str_def action_str_def position_str_def)

text \<open>
  C19: the event that is queued has the JSON object of the event that was decoded. Every event the
  decoder makes for a named device and a positive time is translated, and the object the client
  will post for it has exactly the entries of \<open>ToHomeAssistantJSON\<close>.
\<close>

theorem translated_event_is_payload:
  assumes "e \<in> set (decode_updates device ts us)" "device \<noteq> ''''" "0 < ts"
  shows "\<exists>h p. translate_event now created (Some e) = Some h \<and> pb_payload (Some e) = Inr p
    \<and> map_of (flat_map h) = map_of p \<and> he_created_at h = created"
proof -
  obtain i ev where i: "input_spec device ts i = Some ev"
      "e = \<lparr>ne_device = device, ne_timestamp = ts, ne_event = Some ev\<rparr>"
    using decode_updates_elem [OF assms(1)] .
  from i(1) show ?thesis
    by (cases rule: input_specE)
      (use assms(2,3) i(2) in \<open>auto simp: translate_event_def pb_payload_def map_of_flat_map fun_eq_iff
        new_button_event_def new_switch_event_def new_encoder_event_def event_types runner_names\<close>)
qed

section \<open>The events of a frame\<close>

text \<open>The events a frame adds, with the identifiers they get after the last one used.\<close>

definition translated :: "(event_clock \<times> norm_event) list \<Rightarrow> (event_clock \<times> hass_event) list" where
  "translated es = List.map_filter (\<lambda>(ek, e). map_option (Pair ek) (translate_event (ek_now ek) (ek_created ek) (Some e))) es"

fun numbered :: "int64 \<Rightarrow> (event_clock \<times> hass_event) list \<Rightarrow> hass_event list" where
  "numbered n [] = []"
| "numbered n ((ek, h) # hs) = stamp_created (ek_queued ek) (h\<lparr>he_trace_id := n + 1\<rparr>) # numbered (n + 1) hs"

lemma length_numbered [simp]: "length (numbered n hs) = length hs"
  by (induction n hs rule: numbered.induct) auto

text \<open>
  The account of the events \<open>hs\<close> between two states: those accepted were appended to the queue, the
  others are in the overflow counter and, in the client's store, in the drop counter; the runner's
  store recorded every one.
\<close>

definition accounts :: "nat \<Rightarrow> nat \<Rightarrow> hass_event list \<Rightarrow> runner \<Rightarrow> runner \<Rightarrow> bool" where
  "accounts a b hs r r' \<longleftrightarrow> rn_store r' = Some a \<and> rn_busy r' = rn_busy r
     \<and> (\<exists>c c' accepted refused. rn_hass r = Some (c, b) \<and> rn_hass r' = Some (c', b) \<and> client_ok c'
         \<and> subseq accepted hs \<and> length hs = length accepted + refused
         \<and> ch_buf (hk_events c') = ch_buf (hk_events c) @ accepted
         \<and> hk_overflow_drops c' = hk_overflow_drops c + of_nat refused
         \<and> ts_drop_count (rn_heap r' b) = ts_drop_count (rn_heap r b) + of_nat refused)
     \<and> ts_next_id (rn_heap r' a) = ts_next_id (rn_heap r a) + of_nat (length hs)
     \<and> ts_total_events (rn_heap r' a) = ts_total_events (rn_heap r a) + of_nat (length hs)"

lemma accounts_refl:
  "rn_store r = Some a \<Longrightarrow> rn_hass r = Some (c, b) \<Longrightarrow> client_ok c \<Longrightarrow> accounts a b [] r r"
  by (auto simp: accounts_def)

lemma accounts_trans:
  assumes "accounts a b hs1 r r1" "accounts a b hs2 r1 r2"
  shows "accounts a b (hs1 @ hs2) r r2"
proof -
  obtain c c1 x1 n1 where 1: "rn_hass r = Some (c, b)" "rn_hass r1 = Some (c1, b)" "subseq x1 hs1"
      "length hs1 = length x1 + n1" "ch_buf (hk_events c1) = ch_buf (hk_events c) @ x1"
      "hk_overflow_drops c1 = hk_overflow_drops c + of_nat n1"
      "ts_drop_count (rn_heap r1 b) = ts_drop_count (rn_heap r b) + of_nat n1"
    using assms(1) by (auto simp: accounts_def)
  obtain c2 x2 n2 where 2: "rn_hass r2 = Some (c2, b)" "client_ok c2" "subseq x2 hs2"
      "length hs2 = length x2 + n2" "ch_buf (hk_events c2) = ch_buf (hk_events c1) @ x2"
      "hk_overflow_drops c2 = hk_overflow_drops c1 + of_nat n2"
      "ts_drop_count (rn_heap r2 b) = ts_drop_count (rn_heap r1 b) + of_nat n2"
    using assms(2) 1(2) by (auto simp: accounts_def)
  have "subseq (x1 @ x2) (hs1 @ hs2)" using 1(3) 2(3) by (rule list_emb_append_mono)
  then have "\<exists>c c' accepted refused. rn_hass r = Some (c, b) \<and> rn_hass r2 = Some (c', b) \<and> client_ok c'
      \<and> subseq accepted (hs1 @ hs2) \<and> length (hs1 @ hs2) = length accepted + refused
      \<and> ch_buf (hk_events c') = ch_buf (hk_events c) @ accepted
      \<and> hk_overflow_drops c' = hk_overflow_drops c + of_nat refused
      \<and> ts_drop_count (rn_heap r2 b) = ts_drop_count (rn_heap r b) + of_nat refused"
    using 1 2 by (intro exI [of _ c] exI [of _ c2] exI [of _ "x1 @ x2"] exI [of _ "n1 + n2"]) simp
  then show ?thesis using assms by (simp add: accounts_def)
qed

lemma record_event_fields:
  assumes "record_event t ty su s = (s', i)"
  shows "i = ts_next_id s + 1 \<and> ts_next_id s' = ts_next_id s + 1 \<and> ts_total_events s' = ts_total_events s + 1
    \<and> ts_drop_count s' = ts_drop_count s"
  using assms by (auto simp: record_event_def Let_def)

lemma hass_enqueue_store:
  assumes "hass_enqueue t e (c, Some st) = Some (ok, c', st')"
  shows "\<exists>st1. st' = Some st1 \<and> ts_next_id st1 = ts_next_id st \<and> ts_total_events st1 = ts_total_events st
    \<and> ts_drop_count st1 = ts_drop_count st + (if ok then 0 else 1)"
  using assms
  by (auto simp: hass_enqueue_def refuse_event_def record_drop_def Let_def split: if_splits send_result.splits)

lemma handle_event_accounts:
  assumes "rn_store r = Some a" "rn_hass r = Some (c, b)" "client_ok c"
    and "translate_event (ek_now ek) (ek_created ek) (Some e) = Some h"
  obtains r' where "handle_event fg ek e r = Some r'"
    "accounts a b [stamp_created (ek_queued ek) (h\<lparr>he_trace_id := ts_next_id (rn_heap r a) + 1\<rparr>)] r r'"
proof -
  obtain t i where t: "record_event (ek_recorded ek) (he_type h) (format_summary fg h) (rn_heap r a) = (t, i)"
    by (metis prod.exhaust)
  note f = record_event_fields [OF t]
  let ?h = "h\<lparr>he_trace_id := i\<rparr>" and ?heap = "(rn_heap r)(a := t)"
  have v: "client_ok (fst (c, Some (?heap b)))" using assms(3) by simp
  obtain ok c' st where q: "hass_enqueue (ek_queued ek) ?h (c, Some (?heap b)) = Some (ok, c', st)"
      "client_ok c'"
      "ok \<longrightarrow> ch_buf (hk_events c') = ch_buf (hk_events c) @ [stamp_created (ek_queued ek) ?h]
        \<and> hk_overflow_drops c' = hk_overflow_drops c"
      "\<not> ok \<longrightarrow> ch_buf (hk_events c') = ch_buf (hk_events c) \<and> hk_overflow_drops c' = hk_overflow_drops c + 1"
  proof (rule hassq.enqueueE [OF v, of "ek_queued ek" ?h], goal_cases)
    case (1 d')
    then show thesis by (intro that [of True "fst d'" "snd d'"]) simp_all
  next
    case (2 d')
    then show thesis by (intro that [of False "fst d'" "snd d'"]) simp_all
  qed
  obtain st1 where st1: "st = Some st1" "ts_next_id st1 = ts_next_id (?heap b)"
      "ts_total_events st1 = ts_total_events (?heap b)"
      "ts_drop_count st1 = ts_drop_count (?heap b) + (if ok then 0 else 1)"
    using hass_enqueue_store [OF q(1)] by blast
  let ?r = "r\<lparr>rn_heap := ?heap(b := st1), rn_hass := Some (c', b)\<rparr>"
  have "handle_event fg ek e r = Some ?r"
    using assms(1,2,4) t q(1) st1(1) by (simp add: handle_event_def)
  moreover have "accounts a b [stamp_created (ek_queued ek) ?h] r ?r"
  proof (cases ok)
    case True
    then show ?thesis using assms f q st1 unfolding accounts_def
      by (intro conjI exI [of _ c] exI [of _ c'] exI [of _ "[stamp_created (ek_queued ek) ?h]"] exI [of _ 0]) auto
  next
    case False
    then show ?thesis using assms f q st1 unfolding accounts_def
      by (intro conjI exI [of _ c] exI [of _ c'] exI [of _ "[]"] exI [of _ 1]) auto
  qed
  ultimately show thesis using that f by simp
qed

lemma handle_events_account:
  assumes "rn_store r = Some a" "rn_hass r = Some (c, b)" "client_ok c"
  shows "\<exists>r'. handle_events fg es r = Some r'
    \<and> accounts a b (numbered (ts_next_id (rn_heap r a)) (translated es)) r r'"
  using assms
proof (induction es arbitrary: r c)
  case Nil
  then show ?case by (simp add: translated_def List.map_filter_simps accounts_refl)
next
  case (Cons x es)
  obtain ek e where x: "x = (ek, e)" by (cases x)
  show ?case
  proof (cases "translate_event (ek_now ek) (ek_created ek) (Some e)")
    case None
    then have "handle_event fg ek e r = Some r" "translated (x # es) = translated es"
      by (simp_all add: handle_event_def translated_def List.map_filter_simps x)
    then show ?thesis using Cons.IH [OF Cons.prems] x by simp
  next
    case (Some h)
    let ?h = "stamp_created (ek_queued ek) (h\<lparr>he_trace_id := ts_next_id (rn_heap r a) + 1\<rparr>)"
    obtain r1 where r1: "handle_event fg ek e r = Some r1" "accounts a b [?h] r r1"
      using handle_event_accounts [OF Cons.prems Some] .
    then obtain c1 where c1: "rn_store r1 = Some a" "rn_hass r1 = Some (c1, b)" "client_ok c1"
        "ts_next_id (rn_heap r1 a) = ts_next_id (rn_heap r a) + 1"
      by (auto simp: accounts_def)
    obtain r' where "handle_events fg es r1 = Some r'"
        "accounts a b (numbered (ts_next_id (rn_heap r a) + 1) (translated es)) r1 r'"
      using Cons.IH [OF c1(1-3)] c1(4) by auto
    moreover have "translated (x # es) = (ek, h) # translated es"
      using Some by (simp add: translated_def List.map_filter_simps x)
    ultimately show ?thesis using accounts_trans [OF r1(2)] r1(1) x by auto
  qed
qed

text \<open>
  C5: no event of a frame is lost between the decoder and the queue. When a frame decodes, every
  event that translates is recorded in the telemetry store, in order, with consecutive identifiers,
  and offered to the dispatcher with its identifier: those accepted are appended to the queue in
  order, all others are in the overflow counter and in the drop counter of the store the client
  was built with. No enqueue panics, and the store learns whether the device is connected.
\<close>

theorem frame_events_accounted:
  assumes "rn_store r = Some a" "rn_hass r = Some (c, b)" "client_ok c" "rn_decoder r = Some device"
    and "fst (decode unmarshal device now frame) = Inr events"
  shows "\<exists>r' c' accepted refused. let hs = numbered (ts_next_id (rn_heap r a))
        (translated (zip (map clk [0..<length events]) events)) in
     handle_frame unmarshal fg now clk sync_at frame r = Some r' \<and> rn_hass r' = Some (c', b)
     \<and> subseq accepted hs \<and> length hs = length accepted + refused
     \<and> ch_buf (hk_events c') = ch_buf (hk_events c) @ accepted
     \<and> hk_overflow_drops c' = hk_overflow_drops c + of_nat refused
     \<and> ts_drop_count (rn_heap r' b) = ts_drop_count (rn_heap r b) + of_nat refused
     \<and> ts_next_id (rn_heap r' a) = ts_next_id (rn_heap r a) + of_nat (length hs)
     \<and> ts_total_events (rn_heap r' a) = ts_total_events (rn_heap r a) + of_nat (length hs)
     \<and> (\<forall>l. rn_busy r = Some l \<longrightarrow> is_connected (rn_heap r' a) = ls_connected (bb_status l))"
proof -
  let ?es = "zip (map clk [0..<length events]) events"
  obtain r1 where r1: "handle_events fg ?es r = Some r1"
      "accounts a b (numbered (ts_next_id (rn_heap r a)) (translated ?es)) r r1"
    using handle_events_account [OF assms(1-3)] by blast
  have h: "handle_frame unmarshal fg now clk sync_at frame r = Some (sync_connected sync_at r1)"
    using assms(4,5) r1(1) by (simp add: handle_frame_def)
  have s: "rn_hass (sync_connected sync_at r1) = rn_hass r1"
      "ts_drop_count (rn_heap (sync_connected sync_at r1) x) = ts_drop_count (rn_heap r1 x)"
      "ts_next_id (rn_heap (sync_connected sync_at r1) x) = ts_next_id (rn_heap r1 x)"
      "ts_total_events (rn_heap (sync_connected sync_at r1) x) = ts_total_events (rn_heap r1 x)" for x
    by (simp_all add: sync_connected_def on_store_def set_connected_def Let_def split: option.split)
  have "is_connected (rn_heap (sync_connected sync_at r1) a) = ls_connected (bb_status l)" if "rn_busy r = Some l" for l
    using r1(2) that by (simp add: accounts_def sync_connected_def on_store_def set_connected_def is_connected_def Let_def)
  with h s r1(2) assms(2) show ?thesis by (auto simp: accounts_def Let_def)
qed

section \<open>What a configuration builds\<close>

lemma hass_config_valid:
  assumes "app_validate uri cfg = None"
  shows "\<exists>c. new_hass_client uri (hass_default_config\<lparr>hc_base_url := ac_hass_url cfg, hc_token := ac_hass_token cfg,
    hc_event_type := ac_hass_event_type cfg, hc_request_timeout := ac_hass_timeout cfg\<rparr>) = Inr c"
proof -
  have "hass_validate uri (hass_default_config\<lparr>hc_base_url := ac_hass_url cfg, hc_token := ac_hass_token cfg,
      hc_event_type := ac_hass_event_type cfg, hc_request_timeout := ac_hass_timeout cfg\<rparr>) = None"
    using assms by (simp add: hass_validate_None app_validate_None) (simp add: hass_default_config_def go_arith)
  then show ?thesis by (simp add: new_hass_client_def)
qed

lemma handle_login_answers:
  "\<not> server_oauth_configured s \<or> ws_oauth s \<noteq> None \<Longrightarrow> \<exists>resp. handle_login auth_url nonce now s rq = Some resp"
  by (auto simp: handle_login_def split: option.splits sum.splits)

text \<open>
  C12: a valid configuration builds a runner, wired as it says. Only the configuration and the
  binding file can make \<open>NewRunner\<close> fail. Every component has its part of the configuration: the
  Busy Bar client the host, or the default for an empty one, and the port; the decoder the device; the
  Home Assistant client the URL, token, event type and timeout, and the runner's own store to report
  to; the push client the host, the port, the key and the timeout; the OAuth manager, there exactly
  when a client is configured, its credentials and redirect, with Google's endpoints; the poller and
  the display, there exactly when they are enabled, the interval, the store and the manager; the
  server the port, the store, the manager and whether OAuth is configured; and its login never panics.
\<close>

theorem runner_wired_by_config:
  assumes "app_validate uri cfg = None" "ac_calendar_store_path cfg \<noteq> ''''"
    and "new_cal_store unmarshal fault fs (ac_calendar_store_path cfg) = Inr st"
  shows "\<exists>r b c s p. new_runner uri google unmarshal fault fs heap now template_ok (Some cfg) [] = Inr r
    \<and> rn_store r = Some 0 \<and> rn_busy r = Some b \<and> rn_hass r = Some (c, 0) \<and> rn_server r = Some s \<and> rn_push r = Some p
    \<and> bc_host (bb_cfg b) = (if ac_busybar_host cfg = '''' then bc_host busy_default_config else ac_busybar_host cfg)
    \<and> bc_port (bb_cfg b) = ac_busybar_port cfg \<and> rn_decoder r = Some (ac_busybar_device_id cfg)
    \<and> client_ok c \<and> hc_base_url (hk_cfg c) = ac_hass_url cfg \<and> hc_token (hk_cfg c) = ac_hass_token cfg
    \<and> hc_event_type (hk_cfg c) = ac_hass_event_type cfg \<and> hc_request_timeout (hk_cfg c) = ac_hass_timeout cfg
    \<and> mailbox_ok p \<and> pc_enabled (pu_cfg p) = ac_enable_outbound_push cfg \<and> pc_host (pu_cfg p) = ac_busybar_host cfg
    \<and> pc_port (pu_cfg p) = ac_busybar_port cfg \<and> pc_api_key (pu_cfg p) = ac_busybar_api_key cfg
    \<and> pu_http_timeout p = ac_push_timeout cfg
    \<and> (case rn_cal_mgr r of
         None \<Rightarrow> \<not> is_oauth_configured cfg
       | Some m \<Rightarrow> is_oauth_configured cfg \<and> oc_client_id (cm_oauth m) = ac_google_client_id cfg
           \<and> oc_client_secret (cm_oauth m) = ac_google_client_secret cfg
           \<and> oc_redirect_url (cm_oauth m) = ac_google_redirect_url cfg
           \<and> (oc_auth_url (cm_oauth m), oc_token_url (cm_oauth m)) = google)
    \<and> rn_cal_store r = Some st
    \<and> (case rn_poller r of
         None \<Rightarrow> \<not> ac_enable_calendar_sync cfg
       | Some q \<Rightarrow> ac_enable_calendar_sync cfg \<and> po_enabled q \<and> po_poll_interval q = ac_calendar_poll_interval cfg
           \<and> po_store q = Some st \<and> po_manager q = rn_cal_mgr r \<and> po_base_url q = '''' \<and> \<not> po_own_client q)
    \<and> (case rn_display r of
         None \<Rightarrow> \<not> (ac_enable_calendar_sync cfg \<and> ac_enable_outbound_push cfg)
       | Some o1 \<Rightarrow> ac_enable_calendar_sync cfg \<and> ac_enable_outbound_push cfg
           \<and> oo_enabled o1 \<and> oo_has_tracker o1 \<and> oo_has_push o1 \<and> 0 < oo_keep_alive o1)
    \<and> pt_enabled (ts_push (rn_heap r 0)) = ac_enable_outbound_push cfg
    \<and> ct_enabled (ts_calendar_sync (rn_heap r 0)) = ac_enable_calendar_sync cfg
    \<and> ws_addr s = listen_addr (ac_port cfg) \<and> ws_cal_store s = Some st \<and> ws_oauth s = rn_cal_mgr r
    \<and> server_oauth_configured s = is_oauth_configured cfg \<and> ws_has_tracker s = ac_enable_calendar_sync cfg
    \<and> ws_has_display s = (ac_enable_calendar_sync cfg \<and> ac_enable_outbound_push cfg)
    \<and> handle_login auth_url nonce now2 s rq \<noteq> None"
proof -
  let ?hc = "hass_default_config\<lparr>hc_base_url := ac_hass_url cfg, hc_token := ac_hass_token cfg,
      hc_event_type := ac_hass_event_type cfg, hc_request_timeout := ac_hass_timeout cfg\<rparr>"
  obtain c where c: "new_hass_client uri ?hc = Inr c"
    using hass_config_valid [OF assms(1)] by blast
  have p: "0 < ac_push_timeout cfg" "ac_port cfg \<noteq> 0" "\<not> ac_busybar_port cfg \<le> 0" "\<not> ac_calendar_poll_interval cfg \<le> 0"
    using assms(1) by (auto simp: app_validate_None)
  have v: "client_ok c" "hk_cfg c = ?hc" using new_hass_client_ok [OF c] by blast+
  have m: "mailbox_ok (new_push_client pc)" for pc by (rule new_push_client_ok)
  note defs = new_runner_def Let_def on_store_def new_poller_def new_server_def with_calendar_store_def
    with_oauth_manager_def with_oauth_configured_def with_event_tracker_def with_display_provider_def
    set_calendar_sync_enabled_def set_push_enabled_def effective_timeout_def new_manager_def
    new_busy_client_def fill_defaults_def new_orchestrator_def DefaultKeepAliveInterval_def second_def
  have pu: "pu_cfg (new_push_client pc) = pc"
    "pu_http_timeout (new_push_client pc) = (if pc_timeout pc \<le> 0 then 3 * second else pc_timeout pc)" for pc
    by (simp_all add: new_push_client_def effective_timeout_def)
  show ?thesis
    by (cases "ac_enable_calendar_sync cfg"; cases "ac_enable_outbound_push cfg"; cases "is_oauth_configured cfg")
      (use assms c p v m in \<open>simp_all add: defs pu handle_login_answers server_oauth_configured_def\<close>)
qed

section \<open>Concrete runs\<close>

definition demo_updates :: "state_update option list" where
  "demo_updates = [Some \<lparr>su_state = Some (StateUpdate_Input (Some \<lparr>ie_event =
     Some (InputEvent_EncoderEvent (Some \<lparr>bee_delta = 1\<rparr>))\<rparr>))\<rparr>]"

definition demo_norm :: norm_event where
  "demo_norm = \<lparr>ne_device = ''bar'', ne_timestamp = 5, ne_event = Some (NormalizedEvent_Encoder (Some
     \<lparr>nc_device = ''bar'', nc_delta = 1, nc_timestamp = 5\<rparr>))\<rparr>"

lemma demo_decodes: "decode_updates ''bar'' 5 demo_updates = [demo_norm]"
  by (simp add: demo_updates_def demo_norm_def decode_updates_spec update_spec_def StateUpdate_GetInput_def)

lemma translated_event_is_payload_witness:
  "\<exists>h p. translate_event 0 7 (Some demo_norm) = Some h \<and> pb_payload (Some demo_norm) = Inr p
     \<and> map_of (flat_map h) = map_of p"
proof -
  have "demo_norm \<in> set (decode_updates ''bar'' 5 demo_updates)" by (simp add: demo_decodes)
  from translated_event_is_payload [OF this, of 0 7] show ?thesis by auto
qed

definition demo_runner :: "hass_client \<Rightarrow> runner" where
  "demo_runner c = \<lparr>rn_cfg = app_default_config, rn_heap = (\<lambda>_. new_store 0), rn_store = Some 0, rn_busy = None,
     rn_decoder = Some ''bar'', rn_hass = Some (c, 0), rn_server = None, rn_cal_store = None, rn_cal_mgr = None,
     rn_poller = None, rn_push = None, rn_display = None, rn_running = False\<rparr>"

definition demo_clock :: event_clock where
  "demo_clock = \<lparr>ek_now = 1, ek_created = 2, ek_recorded = 3, ek_queued = 4\<rparr>"

lemma frame_events_accounted_witness:
  "\<exists>c r'. new_hass_client demo_uri demo_config = Inr c
     \<and> handle_frame (\<lambda>_. Inr \<lparr>bs_timestamp = 5, bs_updates = demo_updates, bs_error = None\<rparr>) (\<lambda>_. []) 0
         (\<lambda>_. demo_clock) 9 ''x'' (demo_runner c) = Some r' \<and> ts_total_events (rn_heap r' 0) = 1"
proof -
  obtain c where c: "new_hass_client demo_uri demo_config = Inr c"
    using demo_valid by (simp add: new_hass_client_def)
  let ?u = "\<lambda>_::string. Inr \<lparr>bs_timestamp = 5, bs_updates = demo_updates, bs_error = None\<rparr> :: string + bb_state"
  have d: "fst (decode ?u ''bar'' 0 ''x'') = Inr [demo_norm]"
    by (simp add: decode_def frame_timestamp_def demo_decodes Let_def)
  have t: "length (translated (zip (map (\<lambda>_. demo_clock) [0..<length [demo_norm]]) [demo_norm])) = 1"
    by (simp add: translated_def List.map_filter_simps translate_event_def demo_norm_def Let_def)
  have r: "rn_store (demo_runner c) = Some 0" "rn_hass (demo_runner c) = Some (c, 0)" "client_ok c"
      "rn_decoder (demo_runner c) = Some ''bar''" "ts_total_events (rn_heap (demo_runner c) 0) = 0"
    using new_hass_client_ok [OF c] by (simp_all add: demo_runner_def new_store_def)
  from frame_events_accounted [OF r(1-4) d, where clk = "\<lambda>_. demo_clock" and fg = "\<lambda>_. []" and sync_at = 9] t r(5) c
  show ?thesis by (auto simp: Let_def)
qed

lemma runner_wired_by_config_witness:
  "\<exists>r. new_runner (\<lambda>_. Inr (''http'', ''h'')) ('''', '''') (\<lambda>_. Inl []) None Map.empty (\<lambda>_. new_store 0) 0 True
      (Some (app_default_config\<lparr>ac_hass_token := ''secret'', ac_enable_calendar_sync := True\<rparr>)) [] = Inr r
    \<and> rn_poller r \<noteq> None \<and> rn_display r = None \<and> (\<exists>p. rn_push r = Some p \<and> pc_port (pu_cfg p) = 80)"
proof -
  let ?cfg = "app_default_config\<lparr>ac_hass_token := ''secret'', ac_enable_calendar_sync := True\<rparr>"
  have v: "app_validate (\<lambda>_. Inr (''http'', ''h'')) ?cfg = None"
    by (simp add: app_validate_None check_http_url_None app_default_config_def go_arith not_blank_Cons is_space_def)
  have p: "ac_calendar_store_path ?cfg \<noteq> ''''" "ac_enable_calendar_sync ?cfg" "\<not> ac_enable_outbound_push ?cfg"
      "ac_busybar_port ?cfg = 80" by (simp_all add: app_default_config_def)
  have "new_cal_store (\<lambda>_. Inl []) None Map.empty (ac_calendar_store_path ?cfg)
      = Inr \<lparr>cst_path = ac_calendar_store_path ?cfg, cst_binding = None\<rparr>"
    using p(1) by (simp add: new_cal_store_def read_file_def)
  from runner_wired_by_config [OF v p(1) this, of "('''', '''')" "\<lambda>_. new_store 0" 0 True
      "\<lambda>_ t _. t" "Inr []" 0 "follow [] ''/''"] p(2-4)
  show ?thesis by (auto split: option.splits)
qed

end
