(* ===== verification/RunLoop.thy ===== *)
theory RunLoop
  imports Runner
begin

text \<open>
  \<open>Run\<close>, \<open>Close\<close> and \<open>Shutdown\<close> of \<open>internal/runner/runner.go\<close>, and \<open>run\<close> of \<open>main.go\<close>. \<open>Run\<close>
  is a step relation: its own statements, the worker of the stream client that fills the frames
  channel, the ticker that copies the connection state, the closers it starts, the cancellation of
  the context and the shutdown timeout. The ghost fields are the frames that entered the channel and
  those that were handled.

  Lemmas: no step panics; every frame that entered the channel is handled, in order, before \<open>Run\<close>
  returns; all clients are closed unless the timeout came first; the order of the closers does not
  matter.
\<close>

section \<open>Starting the services\<close>

datatype run_error = AlreadyRunning | ServerStart string | HassStart hass_error | BusyStart string
  | PushStart string | PollerStart string | DisplayStart string

text \<open>The services start in this order; a failure returns at once and leaves the earlier ones running.\<close>

definition and_then :: "run_error option \<times> runner \<Rightarrow> (runner \<Rightarrow> run_error option \<times> runner) \<Rightarrow> run_error option \<times> runner" where
  "and_then s f = (case s of (Some e, r) \<Rightarrow> (Some e, r) | (None, r) \<Rightarrow> f r)"

definition start_server :: "string option \<Rightarrow> (string \<Rightarrow> string + int) \<Rightarrow> runner \<Rightarrow> run_error option \<times> runner" where
  "start_server ctx_err listen r = (case rn_server r of
     None \<Rightarrow> (None, r)
   | Some s \<Rightarrow> (case server_start ctx_err listen s of (e, s') \<Rightarrow> (map_option ServerStart e, r\<lparr>rn_server := Some s'\<rparr>)))"

definition start_hass :: "runner \<Rightarrow> run_error option \<times> runner" where
  "start_hass r = (case rn_hass r of
     None \<Rightarrow> (None, r)
   | Some (c, a) \<Rightarrow> (case hass_start c of Inl e \<Rightarrow> (Some (HassStart e), r) | Inr c' \<Rightarrow> (None, r\<lparr>rn_hass := Some (c', a)\<rparr>)))"

definition start_busy :: "runner \<Rightarrow> run_error option \<times> runner" where
  "start_busy r = (case rn_busy r of
     None \<Rightarrow> (None, r)
   | Some c \<Rightarrow> (case busy_start c of Inl e \<Rightarrow> (Some (BusyStart e), r) | Inr c' \<Rightarrow> (None, r\<lparr>rn_busy := Some c'\<rparr>)))"

definition start_push :: "runner \<Rightarrow> run_error option \<times> runner" where
  "start_push r = (case rn_push r of
     None \<Rightarrow> (None, r)
   | Some p \<Rightarrow> (case push_start p of (e, p') \<Rightarrow> (map_option PushStart e, r\<lparr>rn_push := Some p'\<rparr>)))"

definition start_poller :: "runner \<Rightarrow> run_error option \<times> runner" where
  "start_poller r = (case rn_poller r of
     None \<Rightarrow> (None, r)
   | Some p \<Rightarrow> (case poller_start p of (e, p') \<Rightarrow> (map_option PollerStart e, r\<lparr>rn_poller := Some p'\<rparr>)))"

definition start_display :: "runner \<Rightarrow> run_error option \<times> runner" where
  "start_display r = (case rn_display r of
     None \<Rightarrow> (None, r)
   | Some d \<Rightarrow> (case orchestrator_start d of (e, d') \<Rightarrow> (map_option DisplayStart e, r\<lparr>rn_display := Some d'\<rparr>)))"

definition start_services :: "string option \<Rightarrow> (string \<Rightarrow> string + int) \<Rightarrow> runner \<Rightarrow> run_error option \<times> runner" where
  "start_services ctx_err listen r =
     and_then (and_then (and_then (and_then (and_then (start_server ctx_err listen r)
       start_hass) start_busy) start_push) start_poller) start_display"

text \<open>The prologue of \<open>Run\<close>; \<open>running\<close> is reset when it fails, as it is on every return.\<close>

definition run_begin :: "string option \<Rightarrow> (string \<Rightarrow> string + int) \<Rightarrow> runner \<Rightarrow> run_error option \<times> runner" where
  "run_begin ctx_err listen r =
     (if rn_running r then (Some AlreadyRunning, r)
      else (case start_services ctx_err listen (r\<lparr>rn_running := True\<rparr>) of
        (Some e, r') \<Rightarrow> (Some e, r'\<lparr>rn_running := False\<rparr>)
      | (None, r') \<Rightarrow> (None, r')))"

section \<open>Closing the clients\<close>

datatype closer = CloseDisplay | CloseHass | ClosePush | ClosePoller

definition apply_closer :: "closer \<Rightarrow> runner \<Rightarrow> runner option" where
  "apply_closer k r = (case k of
     CloseDisplay \<Rightarrow> Some (r\<lparr>rn_display := map_option orchestrator_close (rn_display r)\<rparr>)
   | CloseHass \<Rightarrow> (case rn_hass r of
       None \<Rightarrow> Some r
     | Some (c, a) \<Rightarrow> map_option (\<lambda>c'. r\<lparr>rn_hass := Some (c', a)\<rparr>) (hass_close c))
   | ClosePush \<Rightarrow> Some (r\<lparr>rn_push := map_option push_close (rn_push r)\<rparr>)
   | ClosePoller \<Rightarrow> Some (r\<lparr>rn_poller := map_option poller_close (rn_poller r)\<rparr>))"

fun close_all :: "closer list \<Rightarrow> runner \<Rightarrow> runner option" where
  "close_all [] r = Some r"
| "close_all (k # ks) r = (case apply_closer k r of None \<Rightarrow> None | Some r' \<Rightarrow> close_all ks r')"

definition shutdown_closers :: "closer list" where
  "shutdown_closers = [CloseDisplay, CloseHass, ClosePush, ClosePoller]"

definition close_busy :: "runner \<Rightarrow> runner" where
  "close_busy r = r\<lparr>rn_busy := map_option (\<lambda>c. close_frames_once (close_request c)) (rn_busy r)\<rparr>"

text \<open>\<open>Close\<close>, when every goroutine it waits for ends; no client returns an error.\<close>

definition runner_close :: "runner \<Rightarrow> runner option" where
  "runner_close r = close_all [CloseDisplay, ClosePush, ClosePoller, CloseHass] (close_busy r)"

text \<open>
  \<open>Shutdown\<close>: the closers run concurrently, so in some order, those that ended before a timeout.
  \<open>server_err\<close> is what shutting down the HTTP server answered. The stream client is not closed.
\<close>

definition runner_shutdown :: "string option \<Rightarrow> string option \<Rightarrow> closer list \<Rightarrow> runner \<Rightarrow> string option \<times> runner option" where
  "runner_shutdown timed_out server_err order r =
     (if timed_out \<noteq> None then timed_out else if rn_server r \<noteq> None then server_err else None, close_all order r)"

section \<open>Run\<close>

datatype run_phase = NotRunning | Looping | Leaving | WaitingBusy | Draining | Closing
  | Returned "run_error option" | RunPanicked

record run_sys =
  rs_runner :: runner
  rs_phase :: run_phase
  rs_ctx_done :: bool
  rs_worker :: bool
  rs_ticker :: bool
  rs_pending :: "closer list"
  rs_timed_out :: bool
  rs_entered :: "string list"
  rs_handled :: "string list"

definition frames_of :: "runner \<Rightarrow> string chan option" where
  "frames_of r = map_option bb_frames (rn_busy r)"

definition take_frame :: "string chan \<Rightarrow> runner \<Rightarrow> runner" where
  "take_frame ch r = r\<lparr>rn_busy := map_option (\<lambda>c. c\<lparr>bb_frames := ch\<rparr>) (rn_busy r)\<rparr>"

inductive run_step :: "codec \<Rightarrow> (rat \<Rightarrow> string) \<Rightarrow> run_sys \<Rightarrow> run_sys \<Rightarrow> bool" for unmarshal fg where
  begin_ok: "rs_phase s = NotRunning \<Longrightarrow> run_begin ctx_err listen (rs_runner s) = (None, r) \<Longrightarrow>
     run_step unmarshal fg s (s\<lparr>rs_runner := r, rs_phase := Looping, rs_worker := rn_busy r \<noteq> None, rs_ticker := True\<rparr>)"
| begin_failed: "rs_phase s = NotRunning \<Longrightarrow> run_begin ctx_err listen (rs_runner s) = (Some err, r) \<Longrightarrow>
     run_step unmarshal fg s (s\<lparr>rs_runner := r, rs_phase := Returned (Some err),
       rs_worker := (rn_busy r \<noteq> rn_busy (rs_runner s))\<rparr>)"
| cancel: "run_step unmarshal fg s (s\<lparr>rs_ctx_done := True\<rparr>)"
| read: "rs_worker s \<Longrightarrow> rn_busy (rs_runner s) = Some c \<Longrightarrow> read_message typ payload c = Some c' \<Longrightarrow>
     run_step unmarshal fg s (s\<lparr>rs_runner := (rs_runner s)\<lparr>rn_busy := Some c'\<rparr>,
       rs_entered := (if bb_frames c' = bb_frames c then rs_entered s else rs_entered s @ [payload])\<rparr>)"
| read_panic: "rs_worker s \<Longrightarrow> rn_busy (rs_runner s) = Some c \<Longrightarrow> read_message typ payload c = None \<Longrightarrow>
     run_step unmarshal fg s (s\<lparr>rs_phase := RunPanicked\<rparr>)"
| link: "rs_worker s \<Longrightarrow> rn_busy (rs_runner s) = Some c \<Longrightarrow>
     run_step unmarshal fg s (s\<lparr>rs_runner := (rs_runner s)\<lparr>rn_busy := Some (c\<lparr>bb_status := st\<rparr>)\<rparr>\<rparr>)"
| worker_exit: "rs_worker s \<Longrightarrow> rn_busy (rs_runner s) = Some c \<Longrightarrow> rs_ctx_done s \<or> bb_cancel c = Some True \<Longrightarrow>
     run_step unmarshal fg s (s\<lparr>rs_runner := (rs_runner s)\<lparr>rn_busy := Some (close_frames_once c)\<rparr>, rs_worker := False\<rparr>)"
| tick: "rs_ticker s \<Longrightarrow> run_step unmarshal fg s (s\<lparr>rs_runner := sync_connected now (rs_runner s)\<rparr>)"
| ticker_exit: "rs_ticker s \<Longrightarrow> rs_ctx_done s \<or> rs_phase s \<noteq> Looping \<Longrightarrow> run_step unmarshal fg s (s\<lparr>rs_ticker := False\<rparr>)"
| frame: "rs_phase s = Looping \<or> rs_phase s = Draining \<Longrightarrow> frames_of (rs_runner s) = Some ch \<Longrightarrow>
     try_recv ch = Received f ch' \<Longrightarrow>
     handle_frame unmarshal fg now clk sync_at f (take_frame ch' (rs_runner s)) = Some r \<Longrightarrow>
     run_step unmarshal fg s (s\<lparr>rs_runner := r, rs_handled := rs_handled s @ [f]\<rparr>)"
| frame_panic: "rs_phase s = Looping \<or> rs_phase s = Draining \<Longrightarrow> frames_of (rs_runner s) = Some ch \<Longrightarrow>
     try_recv ch = Received f ch' \<Longrightarrow>
     handle_frame unmarshal fg now clk sync_at f (take_frame ch' (rs_runner s)) = None \<Longrightarrow>
     run_step unmarshal fg s (s\<lparr>rs_phase := RunPanicked\<rparr>)"
| leave: "rs_phase s = Looping \<Longrightarrow> rs_ctx_done s \<or> (\<exists>ch. frames_of (rs_runner s) = Some ch \<and> try_recv ch = RecvClosed) \<Longrightarrow>
     run_step unmarshal fg s (s\<lparr>rs_runner := on_store (set_connected now False) (rs_runner s), rs_phase := Leaving\<rparr>)"
| close_stream: "rs_phase s = Leaving \<Longrightarrow>
     run_step unmarshal fg s (s\<lparr>rs_runner := (rs_runner s)\<lparr>rn_busy := map_option close_request (rn_busy (rs_runner s))\<rparr>,
       rs_phase := WaitingBusy\<rparr>)"
| stream_closed: "rs_phase s = WaitingBusy \<Longrightarrow> \<not> rs_worker s \<Longrightarrow>
     run_step unmarshal fg s (s\<lparr>rs_runner := (rs_runner s)\<lparr>rn_busy := map_option close_frames_once (rn_busy (rs_runner s))\<rparr>,
       rs_phase := Draining\<rparr>)"
| drained: "rs_phase s = Draining \<Longrightarrow> (case frames_of (rs_runner s) of None \<Rightarrow> True | Some ch \<Rightarrow> ch_buf ch = []) \<Longrightarrow>
     run_step unmarshal fg s (s\<lparr>rs_phase := Closing, rs_pending := shutdown_closers\<rparr>)"
| close_client: "k \<in> set (rs_pending s) \<Longrightarrow> apply_closer k (rs_runner s) = Some r \<Longrightarrow>
     run_step unmarshal fg s (s\<lparr>rs_runner := r, rs_pending := remove1 k (rs_pending s)\<rparr>)"
| close_panic: "k \<in> set (rs_pending s) \<Longrightarrow> apply_closer k (rs_runner s) = None \<Longrightarrow>
     run_step unmarshal fg s (s\<lparr>rs_phase := RunPanicked\<rparr>)"
| timeout: "rs_phase s = Closing \<Longrightarrow> run_step unmarshal fg s (s\<lparr>rs_timed_out := True\<rparr>)"
| return: "rs_phase s = Closing \<Longrightarrow> rs_pending s = [] \<or> rs_timed_out s \<Longrightarrow>
     run_step unmarshal fg s (s\<lparr>rs_runner := (rs_runner s)\<lparr>rn_running := False\<rparr>, rs_phase := Returned None\<rparr>)"

definition run_init :: "runner \<Rightarrow> run_sys" where
  "run_init r = \<lparr>rs_runner = r, rs_phase = NotRunning, rs_ctx_done = False, rs_worker = False, rs_ticker = False,
     rs_pending = [], rs_timed_out = False, rs_entered = [], rs_handled = []\<rparr>"

inductive run_reach :: "codec \<Rightarrow> (rat \<Rightarrow> string) \<Rightarrow> runner \<Rightarrow> run_sys \<Rightarrow> bool" for unmarshal fg r where
  init: "run_reach unmarshal fg r (run_init r)"
| step: "run_reach unmarshal fg r s \<Longrightarrow> run_step unmarshal fg s t \<Longrightarrow> run_reach unmarshal fg r t"

section \<open>The program\<close>

text \<open>\<open>run\<close> of \<open>main.go\<close>: the exit code from what each of its calls answered.\<close>

definition main_run :: "config_error + app_config \<Rightarrow> (app_config \<Rightarrow> runner_error + runner)
    \<Rightarrow> (runner \<Rightarrow> run_error option) \<Rightarrow> nat" where
  "main_run parsed build run = (case parsed of
     Inl err \<Rightarrow> if err = FlagHelp then 0 else 1
   | Inr cfg \<Rightarrow> (case build cfg of
       Inl _ \<Rightarrow> 1
     | Inr r \<Rightarrow> (case run r of Some _ \<Rightarrow> 1 | None \<Rightarrow> 0)))"

section \<open>What the steps of Run keep\<close>

definition hass_ok :: "runner \<Rightarrow> bool" where
  "hass_ok r \<longleftrightarrow> (\<forall>c a. rn_hass r = Some (c, a) \<longrightarrow> client_ok c)"

definition other_clients :: "runner \<Rightarrow> busy_client option \<times> orchestrator option \<times> push_client option \<times> poller option" where
  "other_clients r = (rn_busy r, rn_display r, rn_push r, rn_poller r)"

fun closed_by :: "closer \<Rightarrow> runner \<Rightarrow> bool" where
  "closed_by CloseDisplay r = (\<forall>d. rn_display r = Some d \<longrightarrow> oo_closed d)"
| "closed_by CloseHass r = (\<forall>c a. rn_hass r = Some (c, a) \<longrightarrow> hk_closed c)"
| "closed_by ClosePush r = (\<forall>p. rn_push r = Some p \<longrightarrow> pu_closed p)"
| "closed_by ClosePoller r = (\<forall>p. rn_poller r = Some p \<longrightarrow> po_closed p)"

lemma on_store_fields [simp]:
  "other_clients (on_store f r) = other_clients r" "rn_hass (on_store f r) = rn_hass r"
  "rn_busy (on_store f r) = rn_busy r" "rn_display (on_store f r) = rn_display r"
  "rn_push (on_store f r) = rn_push r" "rn_poller (on_store f r) = rn_poller r"
  by (simp_all add: on_store_def other_clients_def split: option.split)

lemma sync_connected_fields [simp]:
  "other_clients (sync_connected now r) = other_clients r" "rn_hass (sync_connected now r) = rn_hass r"
  "rn_busy (sync_connected now r) = rn_busy r" "rn_display (sync_connected now r) = rn_display r"
  "rn_push (sync_connected now r) = rn_push r" "rn_poller (sync_connected now r) = rn_poller r"
  by (simp_all add: sync_connected_def split: option.split)

lemma hass_ok_updates [simp]:
  "hass_ok (r\<lparr>rn_busy := b\<rparr>) = hass_ok r" "hass_ok (r\<lparr>rn_running := x\<rparr>) = hass_ok r"
  "hass_ok (on_store f r) = hass_ok r" "hass_ok (sync_connected now r) = hass_ok r"
  "hass_ok (take_frame ch r) = hass_ok r"
  by (simp_all add: hass_ok_def take_frame_def)

lemma handle_event_clients:
  assumes "hass_ok r"
  shows "\<exists>r'. handle_event fg ek e r = Some r' \<and> hass_ok r' \<and> other_clients r' = other_clients r"
proof (cases "translate_event (ek_now ek) (ek_created ek) (Some e)")
  case None
  then show ?thesis using assms by (simp add: handle_event_def)
next
  case (Some h)
  have "\<exists>r1 h1. (case rn_store r of None \<Rightarrow> (r, h)
       | Some a \<Rightarrow> (case record_event (ek_recorded ek) (he_type h) (format_summary fg h) (rn_heap r a) of
           (t, i) \<Rightarrow> (r\<lparr>rn_heap := (rn_heap r)(a := t)\<rparr>, h\<lparr>he_trace_id := i\<rparr>))) = (r1, h1)
      \<and> rn_hass r1 = rn_hass r \<and> other_clients r1 = other_clients r"
  proof (cases "rn_store r")
    case (Some a)
    obtain t i where "record_event (ek_recorded ek) (he_type h) (format_summary fg h) (rn_heap r a) = (t, i)"
      by (rule prod.exhaust)
    then show ?thesis using Some by (simp add: other_clients_def)
  qed simp
  then obtain r1 h1 where r1: "(case rn_store r of None \<Rightarrow> (r, h)
       | Some a \<Rightarrow> (case record_event (ek_recorded ek) (he_type h) (format_summary fg h) (rn_heap r a) of
           (t, i) \<Rightarrow> (r\<lparr>rn_heap := (rn_heap r)(a := t)\<rparr>, h\<lparr>he_trace_id := i\<rparr>))) = (r1, h1)"
      "rn_hass r1 = rn_hass r" "other_clients r1 = other_clients r"
    by blast
  show ?thesis
  proof (cases "rn_hass r")
    case None
    then show ?thesis using Some r1 by (simp add: handle_event_def hass_ok_def)
  next
    case (Some x)
    obtain c a where x: "x = (c, a)" by (cases x)
    have ok: "client_ok c" using assms Some x by (simp add: hass_ok_def)
    obtain b c' t where q: "hass_enqueue (ek_queued ek) h1 (c, Some (rn_heap r1 a)) = Some (b, c', t)"
      using hass_enqueue_answers [OF ok] by (metis not_None_eq prod_cases3)
    show ?thesis
      using \<open>translate_event (ek_now ek) (ek_created ek) (Some e) = Some h\<close> r1 Some x q hass_enqueue_ok [OF ok q]
      by (simp add: handle_event_def hass_ok_def) (simp add: other_clients_def)
  qed
qed

lemma handle_events_clients:
  "hass_ok r \<Longrightarrow> \<exists>r'. handle_events fg es r = Some r' \<and> hass_ok r' \<and> other_clients r' = other_clients r"
proof (induction es arbitrary: r)
  case (Cons x es)
  obtain ek e where x: "x = (ek, e)" by (cases x)
  obtain r1 where "handle_event fg ek e r = Some r1" "hass_ok r1" "other_clients r1 = other_clients r"
    using handle_event_clients [OF Cons.prems] by blast
  then show ?case using Cons.IH [of r1] x by auto
qed simp

lemma handle_frame_clients:
  assumes "hass_ok r"
  shows "\<exists>r'. handle_frame unmarshal fg now clk sync_at f r = Some r' \<and> hass_ok r' \<and> other_clients r' = other_clients r"
  using assms handle_events_clients [OF assms]
  by (fastforce simp: handle_frame_def hass_ok_def split: option.split sum.split)

lemma apply_closer_answers: "hass_ok r \<Longrightarrow> apply_closer k r \<noteq> None"
  using hass_close_answers
  by (cases k) (auto simp: apply_closer_def hass_ok_def split: option.split)

lemma apply_closer_closes:
  assumes "hass_ok r" "apply_closer k r = Some r'"
  shows "hass_ok r'" "closed_by k r'" "closed_by j r \<Longrightarrow> closed_by j r'" "rn_busy r' = rn_busy r"
proof -
  have h: "hass_close c = Some c' \<Longrightarrow> client_ok c \<Longrightarrow> client_ok c' \<and> hk_closed c'" for c c'
    using hass_close_ok by blast
  show "hass_ok r'" "closed_by k r'" "closed_by j r \<Longrightarrow> closed_by j r'" "rn_busy r' = rn_busy r"
    using assms h
    by (cases k; cases j; auto simp: apply_closer_def hass_ok_def orchestrator_close_def push_close_def
        poller_close_def split: option.splits)+
qed

text \<open>Starting the services leaves the client's laws, and starts the stream client or leaves it.\<close>

definition keeps_stream :: "runner \<Rightarrow> runner \<Rightarrow> bool" where
  "keeps_stream r r' \<longleftrightarrow> (hass_ok r \<longrightarrow> hass_ok r') \<and> rn_busy r' = rn_busy r"

definition starts :: "runner \<Rightarrow> runner \<Rightarrow> bool" where
  "starts r r' \<longleftrightarrow> (hass_ok r \<longrightarrow> hass_ok r')
     \<and> (rn_busy r' = rn_busy r \<or> (\<exists>c. rn_busy r = Some c \<and> rn_busy r' = Some (c\<lparr>bb_cancel := Some False\<rparr>)))"

lemma keeps_stream_parts:
  "keeps_stream r (snd (start_server e l r))" "keeps_stream r (snd (start_hass r))"
  "keeps_stream r (snd (start_push r))" "keeps_stream r (snd (start_poller r))"
  "keeps_stream r (snd (start_display r))"
  by (auto simp: keeps_stream_def hass_ok_def start_server_def start_hass_def start_push_def
      start_poller_def start_display_def intro: hass_start_ok split: option.splits prod.splits sum.splits)

lemma start_busy_starts: "starts r (snd (start_busy r))"
  by (auto simp: starts_def hass_ok_def start_busy_def busy_start_def split: option.splits)

lemma keeps_then_keeps: "keeps_stream r x \<Longrightarrow> keeps_stream x y \<Longrightarrow> keeps_stream r y"
  by (simp add: keeps_stream_def)

lemma keeps_then_starts: "keeps_stream r x \<Longrightarrow> starts x y \<Longrightarrow> starts r y"
  by (auto simp: keeps_stream_def starts_def)

lemma starts_then_keeps: "starts r x \<Longrightarrow> keeps_stream x y \<Longrightarrow> starts r y"
  by (auto simp: keeps_stream_def starts_def)

lemma keeps_starts: "keeps_stream r x \<Longrightarrow> starts r x"
  by (simp add: keeps_stream_def starts_def)

lemma and_then_snd:
  assumes "P (snd s)" "\<And>x. P x \<Longrightarrow> Q x" "\<And>x. P x \<Longrightarrow> Q (snd (f x))"
  shows "Q (snd (and_then s f))"
  using assms by (cases s) (auto simp: and_then_def split: option.splits)

lemma start_services_starts: "starts r (snd (start_services ctx_err listen r))"
  unfolding start_services_def
  by (intro and_then_snd [where P = "starts r" and Q = "starts r"]
        and_then_snd [where P = "keeps_stream r" and Q = "starts r" and f = start_busy]
        and_then_snd [where P = "keeps_stream r" and Q = "keeps_stream r" and f = start_hass])
     (auto intro: keeps_stream_parts keeps_then_keeps keeps_then_starts starts_then_keeps
        keeps_starts start_busy_starts)

lemma run_begin_starts:
  assumes "run_begin ctx_err listen r = (res, r')"
  shows "starts r r'"
proof (cases "rn_running r")
  case True
  then show ?thesis using assms by (simp add: run_begin_def starts_def)
next
  case False
  obtain e rb where b: "start_services ctx_err listen (r\<lparr>rn_running := True\<rparr>) = (e, rb)"
    by (rule prod.exhaust)
  have "starts (r\<lparr>rn_running := True\<rparr>) rb"
    using start_services_starts [of "r\<lparr>rn_running := True\<rparr>" ctx_err listen] b by simp
  moreover have "run_begin ctx_err listen r = (e, if e = None then rb else rb\<lparr>rn_running := False\<rparr>)"
    using False b by (cases e) (simp_all add: run_begin_def)
  then have "r' = (if e = None then rb else rb\<lparr>rn_running := False\<rparr>)" using assms by simp
  ultimately show ?thesis by (cases e) (simp_all add: starts_def)
qed

section \<open>The invariant of Run\<close>

definition fresh_stream :: "runner \<Rightarrow> bool" where
  "fresh_stream r \<longleftrightarrow> (\<forall>c. rn_busy r = Some c \<longrightarrow>
     ch_buf (bb_frames c) = [] \<and> \<not> ch_closed (bb_frames c) \<and> \<not> bb_close_once c)"

fun stream_ok :: "busy_client option \<Rightarrow> run_phase \<Rightarrow> bool \<Rightarrow> string list \<Rightarrow> string list \<Rightarrow> bool" where
  "stream_ok None ph worker entered handled = (\<not> worker \<and> entered = [] \<and> handled = [])"
| "stream_ok (Some c) ph worker entered handled =
     (entered = handled @ ch_buf (bb_frames c) \<and> ch_closed (bb_frames c) = bb_close_once c
      \<and> (worker \<or> ph = NotRunning \<longrightarrow> \<not> bb_close_once c)
      \<and> (ph = Closing \<or> ph = Returned None \<longrightarrow> ch_buf (bb_frames c) = []))"

definition stream_inv :: "run_sys \<Rightarrow> bool" where
  "stream_inv s \<longleftrightarrow> stream_ok (rn_busy (rs_runner s)) (rs_phase s) (rs_worker s) (rs_entered s) (rs_handled s)
     \<and> (rs_phase s \<in> {NotRunning, Draining, Closing, Returned None} \<longrightarrow> \<not> rs_worker s)"

definition closing_inv :: "run_sys \<Rightarrow> bool" where
  "closing_inv s \<longleftrightarrow> distinct (rs_pending s)
     \<and> (if rs_phase s = Closing \<or> rs_phase s = Returned None
        then (\<forall>k. k \<in> set (rs_pending s) \<or> closed_by k (rs_runner s)) else rs_pending s = [])
     \<and> (rs_phase s = Returned None \<longrightarrow> rs_pending s = [] \<or> rs_timed_out s)"

definition run_inv :: "run_sys \<Rightarrow> bool" where
  "run_inv s \<longleftrightarrow> rs_phase s \<noteq> RunPanicked \<and> hass_ok (rs_runner s) \<and> stream_inv s \<and> closing_inv s"

lemma closed_by_same:
  "other_clients r' = other_clients r \<Longrightarrow> rn_hass r' = rn_hass r \<Longrightarrow> closed_by k r' = closed_by k r"
  by (cases k) (simp_all add: other_clients_def)

lemma closed_by_updates [simp]:
  "closed_by k (r\<lparr>rn_busy := b\<rparr>) = closed_by k r" "closed_by k (r\<lparr>rn_running := x\<rparr>) = closed_by k r"
  "closed_by k (on_store f r) = closed_by k r" "closed_by k (sync_connected now r) = closed_by k r"
  by (cases k; simp)+

lemma run_inv_init: "hass_ok r \<Longrightarrow> fresh_stream r \<Longrightarrow> run_inv (run_init r)"
  by (cases "rn_busy r") (simp_all add: run_inv_def run_init_def stream_inv_def closing_inv_def fresh_stream_def)

lemma chan_grew [simp]: "c\<lparr>ch_buf := ch_buf c @ [x]\<rparr> \<noteq> c"
  by (cases c) simp

lemmas run_inv_defs = run_inv_def stream_inv_def closing_inv_def

lemma frame_inv:
  assumes "run_inv s" "rs_phase s = Looping \<or> rs_phase s = Draining" "frames_of (rs_runner s) = Some ch"
    and "try_recv ch = Received f ch'" "handle_frame unmarshal fg now clk sync_at f (take_frame ch' (rs_runner s)) = Some r"
  shows "run_inv (s\<lparr>rs_runner := r, rs_handled := rs_handled s @ [f]\<rparr>)"
proof -
  obtain c where c: "rn_busy (rs_runner s) = Some c" "ch = bb_frames c"
    using assms(3) by (auto simp: frames_of_def)
  have "hass_ok (take_frame ch' (rs_runner s))"
    using assms(1) by (simp add: run_inv_def)
  then have r: "hass_ok r" "other_clients r = other_clients (take_frame ch' (rs_runner s))"
    using handle_frame_clients assms(5) by (metis option.inject)+
  then have "rn_busy r = Some (c\<lparr>bb_frames := ch'\<rparr>)"
    using c by (simp add: other_clients_def take_frame_def)
  then show ?thesis
    using assms(1,2,4) c r(1) by (elim disjE) (auto simp: run_inv_defs try_recv_Received)
qed

lemma run_step_inv:
  assumes "run_step unmarshal fg s t" "run_inv s"
  shows "run_inv t"
  using assms
proof (induction rule: run_step.induct)
  case (begin_ok s ctx_err listen r)
  from run_begin_starts [OF begin_ok(2)] begin_ok(1,3) show ?case
    by (cases "rn_busy (rs_runner s)"; cases "rn_busy r") (auto simp: run_inv_defs starts_def)
next
  case (begin_failed s ctx_err listen err r)
  from run_begin_starts [OF begin_failed(2)] begin_failed(1,3) show ?case
    by (cases "rn_busy (rs_runner s)"; cases "rn_busy r") (auto simp: run_inv_defs starts_def)
next
  case (cancel s)
  then show ?case by (simp add: run_inv_defs)
next
  case (read s c ty payload c')
  from read_message_cases [OF read(3)] read(1,2,4) show ?case
    by (elim disjE conjE) (simp_all add: run_inv_defs)
next
  case (read_panic s c ty payload)
  then show ?case by (auto simp: run_inv_defs read_message_panic)
next
  case (link s c st)
  then show ?case by (simp add: run_inv_defs)
next
  case (worker_exit s c)
  then show ?case using close_frames_once_closed [of c] by (auto simp: run_inv_defs)
next
  case (tick s now)
  then show ?case by (simp add: run_inv_defs)
next
  case (ticker_exit s)
  then show ?case by (simp add: run_inv_defs)
next
  case (frame s ch f ch' now clk sync_at r)
  then show ?case using frame_inv by blast
next
  case (frame_panic s ch f ch' now clk sync_at)
  have "hass_ok (take_frame ch' (rs_runner s))"
    using frame_panic(5) by (simp add: run_inv_def)
  then show ?case using frame_panic(4) handle_frame_clients by (metis option.distinct(1))
next
  case (leave s now)
  then show ?case by (cases "rn_busy (rs_runner s)") (simp_all add: run_inv_defs)
next
  case (close_stream s)
  then show ?case by (cases "rn_busy (rs_runner s)") (simp_all add: run_inv_defs close_request_def)
next
  case (stream_closed s)
  then show ?case
    by (cases "rn_busy (rs_runner s)") (simp_all add: run_inv_defs close_frames_once_closed)
next
  case (drained s)
  have "k \<in> set shutdown_closers" for k by (cases k) (simp_all add: shutdown_closers_def)
  moreover have "distinct shutdown_closers" by (simp add: shutdown_closers_def)
  ultimately show ?case using drained
    by (cases "rn_busy (rs_runner s)") (simp_all add: run_inv_defs frames_of_def)
next
  case (close_client k s r)
  have h: "hass_ok (rs_runner s)" using close_client(3) by (simp add: run_inv_def)
  note app = apply_closer_closes [OF h close_client(2)]
  have "rs_phase s = Closing \<or> rs_phase s = Returned None"
    using close_client(1,3) by (auto simp: run_inv_def closing_inv_def split: if_splits)
  then show ?case using close_client(1,3) app
    by (elim disjE) (auto simp: run_inv_defs dest: in_set_remove1)
next
  case (close_panic k s)
  then show ?case using apply_closer_answers [of "rs_runner s" k] by (simp add: run_inv_def)
next
  case (timeout s)
  then show ?case by (cases "rn_busy (rs_runner s)") (simp_all add: run_inv_defs)
next
  case (return s)
  then show ?case by (cases "rn_busy (rs_runner s)") (simp_all add: run_inv_defs)
qed

lemma run_reach_inv:
  assumes "run_reach unmarshal fg r s" "hass_ok r" "fresh_stream r"
  shows "run_inv s"
  using assms by induction (auto intro: run_inv_init run_step_inv)

section \<open>Frames across the shutdown\<close>

text \<open>
  C4: no frame is lost inside the bridge. From a runner with a new stream client, whatever the order
  of its goroutines, no step panics; the frames that entered the channel are the handled ones followed
  by the buffered ones; and when \<open>Run\<close> returns without an error every frame that entered was handled,
  the stream worker has ended, and all other clients are closed unless the shutdown timed out.
\<close>

theorem run_handles_every_frame:
  assumes "run_reach unmarshal fg r s" "hass_ok r" "fresh_stream r"
  shows "rs_phase s \<noteq> RunPanicked
    \<and> rs_entered s = rs_handled s @ (case frames_of (rs_runner s) of None \<Rightarrow> [] | Some ch \<Rightarrow> ch_buf ch)
    \<and> (rs_phase s = Returned None \<longrightarrow> rs_handled s = rs_entered s \<and> \<not> rs_worker s
        \<and> (rs_timed_out s \<or> (\<forall>k. closed_by k (rs_runner s))))"
proof -
  have inv: "run_inv s" by (rule run_reach_inv [OF assms])
  then have "rs_phase s = Returned None \<longrightarrow> rs_timed_out s \<or> (\<forall>k. closed_by k (rs_runner s))"
    by (auto simp: run_inv_def closing_inv_def)
  then show ?thesis
    using inv by (cases "rn_busy (rs_runner s)") (auto simp: run_inv_def stream_inv_def frames_of_def)
qed

text \<open>What \<open>NewRunner\<close> builds is such a runner.\<close>

lemma new_runner_fresh:
  assumes "new_runner uri google unmarshal fault fs heap now template_ok config [] = Inr r"
  shows "hass_ok r \<and> fresh_stream r"
proof -
  obtain cfg where cfg: "config = Some cfg"
    using assms by (cases config) (simp_all add: new_runner_def)
  have v: "app_validate uri cfg = None"
    using assms cfg by (cases "app_validate uri cfg") (simp_all add: new_runner_def)
  obtain st where st: "new_cal_store unmarshal fault fs (if ac_calendar_store_path cfg = ''''
      then ac_calendar_store_path app_default_config else ac_calendar_store_path cfg) = Inr st"
    using assms cfg v by (auto simp: new_runner_def split: sum.splits)
  obtain c where c: "new_hass_client uri (hass_default_config\<lparr>hc_base_url := ac_hass_url cfg, hc_token := ac_hass_token cfg,
      hc_event_type := ac_hass_event_type cfg, hc_request_timeout := ac_hass_timeout cfg\<rparr>) = Inr c"
    using assms cfg v st by (auto simp: new_runner_def Let_def split: sum.splits)
  have "rn_hass r = Some (c, 0) \<and> rn_busy r = Some (new_busy_client (busy_default_config\<lparr>bc_host := ac_busybar_host cfg,
      bc_port := ac_busybar_port cfg\<rparr>))"
    by (cases "ac_enable_calendar_sync cfg"; cases "ac_enable_outbound_push cfg")
      (use assms cfg v st c in \<open>auto simp: new_runner_def Let_def on_store_def new_poller_def\<close>)
  then show ?thesis
    using new_hass_client_ok [OF c] by (simp add: hass_ok_def fresh_stream_def new_busy_client_def Let_def)
qed

section \<open>A concrete run\<close>

text \<open>A frame arrives, the context is cancelled, and the frame is drained before \<open>Run\<close> returns.\<close>

definition lone_runner :: runner where
  "lone_runner = \<lparr>rn_cfg = app_default_config, rn_heap = (\<lambda>_. new_store 0), rn_store = None,
     rn_busy = Some (new_busy_client busy_default_config), rn_decoder = None, rn_hass = None, rn_server = None,
     rn_cal_store = None, rn_cal_mgr = None, rn_poller = None, rn_push = None, rn_display = None, rn_running = False\<rparr>"

lemma lone_begin:
  "\<exists>s c. run_reach um fg lone_runner s \<and> rs_phase s = Looping \<and> rs_worker s \<and> rs_entered s = []
     \<and> rs_runner s = lone_runner\<lparr>rn_busy := Some c, rn_running := True\<rparr>
     \<and> ch_buf (bb_frames c) = [] \<and> \<not> ch_closed (bb_frames c) \<and> 0 < ch_cap (bb_frames c)"
proof -
  let ?c = "(new_busy_client busy_default_config)\<lparr>bb_cancel := Some False\<rparr>"
  have "run_begin None (\<lambda>_. Inr 0) (rs_runner (run_init lone_runner))
      = (None, lone_runner\<lparr>rn_busy := Some ?c, rn_running := True\<rparr>)"
    by (simp add: run_begin_def start_services_def and_then_def start_server_def start_hass_def start_busy_def
        start_push_def start_poller_def start_display_def busy_start_def lone_runner_def run_init_def
        new_busy_client_def Let_def)
  from run_reach.step [OF run_reach.init run_step.begin_ok [OF _ this]]
  have "run_reach um fg lone_runner ((run_init lone_runner)\<lparr>rs_runner := lone_runner\<lparr>rn_busy := Some ?c, rn_running := True\<rparr>,
      rs_phase := Looping, rs_worker := True, rs_ticker := True\<rparr>)"
    by (simp add: run_init_def lone_runner_def)
  then show ?thesis
    by (intro exI [of _ ?c] exI conjI) (assumption | simp add: run_init_def new_busy_client_def busy_default_config_def
        fill_defaults_def Let_def)+
qed

lemma lone_run:
  "\<exists>s. run_reach um fg lone_runner s \<and> rs_phase s = Returned None \<and> rs_entered s = [''f'']"
proof -
  note step = run_reach.step [where unmarshal = um and fg = fg and r = lone_runner]
  obtain s1 c where s1: "run_reach um fg lone_runner s1" "rs_phase s1 = Looping" "rs_worker s1" "rs_entered s1 = []"
      "rs_runner s1 = lone_runner\<lparr>rn_busy := Some c, rn_running := True\<rparr>"
    and c: "ch_buf (bb_frames c) = []" "\<not> ch_closed (bb_frames c)" "0 < ch_cap (bb_frames c)"
    using lone_begin by blast
  define c2 where "c2 = c\<lparr>bb_frames := (bb_frames c)\<lparr>ch_buf := [''f'']\<rparr>\<rparr>"
  have rd: "read_message MessageBinary ''f'' c = Some c2"
    using c by (simp add: read_message_def try_send_def c2_def)
  have ne: "bb_frames c2 \<noteq> bb_frames c" using c(1) by (cases "bb_frames c") (simp add: c2_def)
  obtain s2 where s2: "run_reach um fg lone_runner s2" "rs_phase s2 = Looping" "rs_worker s2" "rs_entered s2 = [''f'']"
      "rs_runner s2 = lone_runner\<lparr>rn_busy := Some c2, rn_running := True\<rparr>"
    using step [OF s1(1) run_step.read [OF s1(3) _ rd]] s1 ne by fastforce
  obtain s3 where s3: "run_reach um fg lone_runner s3" "rs_phase s3 = Looping" "rs_worker s3" "rs_entered s3 = [''f'']"
      "rs_ctx_done s3" "rs_runner s3 = lone_runner\<lparr>rn_busy := Some c2, rn_running := True\<rparr>"
    using step [OF s2(1) run_step.cancel] s2 by fastforce
  obtain s4 where s4: "run_reach um fg lone_runner s4" "rs_phase s4 = Leaving" "rs_worker s4" "rs_entered s4 = [''f'']"
      "rs_ctx_done s4" "rs_runner s4 = lone_runner\<lparr>rn_busy := Some c2, rn_running := True\<rparr>"
    using step [OF s3(1) run_step.leave [where now = 0]] s3 by (fastforce simp: on_store_def lone_runner_def)
  obtain s5 where s5: "run_reach um fg lone_runner s5" "rs_phase s5 = WaitingBusy" "rs_worker s5" "rs_entered s5 = [''f'']"
      "rs_ctx_done s5" "rs_runner s5 = lone_runner\<lparr>rn_busy := Some (close_request c2), rn_running := True\<rparr>"
    using step [OF s4(1) run_step.close_stream] s4 by fastforce
  define c6 where "c6 = close_frames_once (close_request c2)"
  obtain s6 where s6: "run_reach um fg lone_runner s6" "rs_phase s6 = WaitingBusy" "\<not> rs_worker s6" "rs_entered s6 = [''f'']"
      "rs_runner s6 = lone_runner\<lparr>rn_busy := Some c6, rn_running := True\<rparr>"
    using step [OF s5(1) run_step.worker_exit [OF s5(3), of "close_request c2"]] s5 by (fastforce simp: c6_def)
  have c7: "ch_buf (bb_frames (close_frames_once c6)) = [''f'']"
    by (simp add: c6_def c2_def close_request_def)
  obtain s7 where s7: "run_reach um fg lone_runner s7" "rs_phase s7 = Draining" "rs_entered s7 = [''f'']"
      "rs_runner s7 = lone_runner\<lparr>rn_busy := Some (close_frames_once c6), rn_running := True\<rparr>"
    using step [OF s6(1) run_step.stream_closed] s6 by fastforce
  let ?ch = "bb_frames (close_frames_once c6)"
  let ?r = "take_frame (?ch\<lparr>ch_buf := []\<rparr>) (rs_runner s7)"
  have hf: "handle_frame um fg 0 (\<lambda>_. undefined) 0 ''f'' ?r = Some ?r" "rn_busy ?r = Some (close_frames_once c6\<lparr>bb_frames := ?ch\<lparr>ch_buf := []\<rparr>\<rparr>)"
    using s7(4) by (simp_all add: handle_frame_def take_frame_def lone_runner_def)
  have rc: "try_recv ?ch = Received ''f'' (?ch\<lparr>ch_buf := []\<rparr>)" using c7 by (simp add: try_recv_def)
  obtain s8 where s8: "run_reach um fg lone_runner s8" "rs_phase s8 = Draining" "rs_entered s8 = [''f'']"
      "rs_runner s8 = ?r"
    using step [OF s7(1) run_step.frame [OF _ _ rc hf(1)]] s7 by (fastforce simp: frames_of_def)
  obtain s9 where s9: "run_reach um fg lone_runner s9" "rs_phase s9 = Closing" "rs_entered s9 = [''f'']"
    using step [OF s8(1) run_step.drained] s8 hf(2) by (fastforce simp: frames_of_def)
  obtain s10 where s10: "run_reach um fg lone_runner s10" "rs_phase s10 = Closing" "rs_entered s10 = [''f'']" "rs_timed_out s10"
    using step [OF s9(1) run_step.timeout] s9 by fastforce
  show ?thesis using step [OF s10(1) run_step.return] s10 by fastforce
qed

lemma run_handles_every_frame_witness:
  "\<exists>s. run_reach (\<lambda>_. Inl []) (\<lambda>_. []) lone_runner s \<and> rs_phase s = Returned None \<and> rs_handled s = [''f'']"
proof -
  obtain s where s: "run_reach (\<lambda>_. Inl []) (\<lambda>_. []) lone_runner s" "rs_phase s = Returned None" "rs_entered s = [''f'']"
    using lone_run by blast
  have "hass_ok lone_runner" "fresh_stream lone_runner"
    by (simp_all add: hass_ok_def fresh_stream_def lone_runner_def new_busy_client_def Let_def)
  then have "rs_handled s = rs_entered s" using run_handles_every_frame [OF s(1)] s(2) by blast
  then show ?thesis using s by metis
qed

end
