(* ===== verification/Spec2Isabelle.thy ===== *)
theory Spec2Isabelle
  imports Telemetry HassClient Decoder BusyClient PushClient CalStore Display
    AppConfig ServerOAuth RunnerPipeline RunLoop
begin

text \<open>
  A model of busybar-bridge, the Go program that reads the event stream of a BusyBar over a
  WebSocket, forwards button, switch and encoder events to Home Assistant, polls a Google calendar
  and draws the current event on the screen of the device.

  \<^bold>\<open>The program.\<close> \<open>main.go\<close> parses the configuration and runs \<open>internal/runner\<close>, which owns the
  components and moves data between them: binary frames come out of \<open>busybar.Client\<close>, the
  \<open>busybar.Decoder\<close> turns a frame into normalized events (\<open>pkg/pb\<close>), each event is recorded in
  \<open>telemetry.Store\<close> and queued in \<open>hass.Client\<close>, whose worker posts it. \<open>calendar.Poller\<close> reads
  the binding of \<open>calendar.Store\<close>, asks the calendar and keeps the event that is going on;
  \<open>calendar.DisplayOrchestrator\<close> renders it and hands the frame to \<open>busybar.PushClient\<close>.
  \<open>calendar.Manager\<close> makes the OAuth requests for \<open>internal/server\<close>, which also shows the status.

  \<^bold>\<open>The theories.\<close>
  \<^item> \<open>Prelude\<close>: 64-bit arithmetic of Go, \<open>time.Duration\<close> and \<open>time.Time\<close> (nanoseconds, saturating
    subtraction), lists. \<open>GoText\<close>: UTF-8 and runes. \<open>GoStrings\<close>: the functions of \<open>strings\<close>,
    \<open>strconv\<close> and \<open>net/url\<close> in use. \<open>GoNet\<close>: host and port. \<open>GoTime\<close>: calendar dates, the layouts in
    use, RFC 3339. \<open>Channels\<close>: buffered channels and \<open>select\<close>. \<open>Float64\<close>: rounding of products and
    conversions. \<open>Json\<close>: what \<open>encoding/json\<close> writes for maps and structs, and
    what a value written is when it is read back.
  \<^item> \<open>Interfaces\<close>: the contracts between components as locales. \<open>push_recorder\<close> is interpreted by the
    telemetry store, \<open>dispatcher\<close> by the Home Assistant client, \<open>binding_store\<close> by the calendar
    store, \<open>event_tracker\<close> by the poller; the bounded queue of \<open>Channels\<close> by channels themselves.
  \<^item> \<open>Telemetry\<close>: \<open>internal/telemetry/store.go\<close>, one function per method; \<open>run_ops\<close> is any sequence
    of calls. The ring buffer is the last ten entries of an append-only log.
  \<^item> \<open>PbMessages\<close>: \<open>pkg/pb\<close>, the messages and enums, and \<open>event.go\<close>. \<open>Decoder\<close>:
    \<open>internal/busybar/decoder.go\<close>, with \<open>Run\<close> as the step relation \<open>decoder_step\<close>.
  \<^item> \<open>HassEvent\<close>, \<open>HassConfig\<close>, \<open>HassClient\<close>: \<open>internal/hass\<close>. \<open>dispatch_loop\<close> is the retry loop; an
    attempt's answers and clock readings are an \<open>attempt_env\<close>; \<open>retry_policy\<close> is the abstract policy it
    refines. \<open>hass_step\<close> is the queue, the worker and \<open>Close\<close>, which does not flush the queue.
  \<^item> \<open>BusyClient\<close>: \<open>internal/busybar/client.go\<close>, with the reconnection loop as \<open>busy_step\<close>. A call of
    \<open>Close\<close> is three steps, the request, the wait and the closing of the channel, so that \<open>Start\<close> may
    come in between; the lifecycle lemma excludes that race, and another shows that it panics.
    \<open>PushClient\<close>: \<open>push.go\<close>, the one-slot mailbox and the worker as \<open>push_step\<close>; a request is in flight
    between \<open>transmit_begin\<close> and \<open>transmit_end\<close>, and \<open>push_frame\<close> is a call no step interrupts.
  \<^item> \<open>CalStore\<close>, \<open>CalManager\<close>, \<open>Poller\<close>, \<open>Display\<close>: \<open>internal/calendar\<close>. \<open>save_binding\<close> yields the
    file system after each of its steps, the states the death of the process can leave; \<open>Poll\<close> is one
    poll, \<open>poll_rounds\<close> the polls of the loop, between which the store may change, and \<open>orch_step_with\<close>
    one evaluation of the display with its poller and its push client.
  \<^item> \<open>GoNumbers\<close>: \<open>ParseBool\<close>, \<open>ParseInt\<close> with a base prefix, \<open>ParseDuration\<close>. \<open>AppConfig\<close>:
    \<open>internal/config\<close>; the variables and the flags are two tables, and the precedence of flags over
    the environment over the defaults is proved for every variable.
  \<^item> \<open>GoHttp\<close>: queries, cookies, redirects and errors of \<open>net/http\<close>. \<open>Server\<close>: \<open>internal/server\<close>, one
    function per handler; \<open>ws_store\<close> is the state of the shared telemetry store when a request is
    served. \<open>ServerOAuth\<close>: concurrent callbacks as the step relation \<open>web_step\<close>, cut where the handler
    calls \<open>Save\<close>; what a login hands out and what a callback accepts.
  \<^item> \<open>Runner\<close>: \<open>NewRunner\<close>, the options, and a frame on its way to the queue; the telemetry stores
    are a heap, because the components share them by reference. \<open>RunnerPipeline\<close>: what a frame does
    to the store and the queue, and what a configuration builds. \<open>RunLoop\<close>: \<open>Run\<close> with its goroutines
    as the step relation \<open>run_step\<close>, \<open>Close\<close>, \<open>Shutdown\<close> and \<open>run\<close> of \<open>main.go\<close>.

  \<^bold>\<open>Conventions.\<close> A string is its list of bytes. Counters are 64-bit words, durations and times are
  integers of nanoseconds with wrapping or saturation written out where the code can reach it.
  What the environment answers (a clock, a socket, an HTTP response, a codec of Protocol Buffers) is
  an argument. A method under a mutex is one function; goroutines, channels and contexts are step
  relations, whose fields named in the theories as ghost fields record the history.

  \<^bold>\<open>Bounds.\<close> No definition has fuel: loops are structural or have a measure (\<open>dispatch_loop\<close>: the
  attempts left; \<open>parse_flags\<close>: the arguments left), and loops that run until they are cancelled are step relations.

  \<^bold>\<open>Not modelled.\<close> Generated code; the HTML template; logging; TLS, sockets, the wire codec of
  Protocol Buffers, URL parsing and the OAuth library, which are parameters; the multiplexer's own
  redirects of unclean paths; the parsing of the \<open>Cookie\<close> header, a request has its cookies; the
  shutdown of the HTTP server, which is what \<open>net/http\<close> answers; the loss of power, so that \<open>Sync\<close>
  only adds a way to fail.
\<close>

end
